theory Spec2Isabelle
  imports Main "HOL-Library.AList"
begin

section \<open>The WSDL definition graph of zeep (src/zeep/wsdl/wsdl.py)\<close>

text \<open>
  A shallow embedding of the classes \<^verbatim>\<open>Document\<close> and \<^verbatim>\<open>Definition\<close>.
  Python dictionaries are association lists that keep the insertion order
  (\<^verbatim>\<open>d[k] = v\<close> is \<^const>\<open>AList.update\<close>: an existing key keeps its position, a new
  key goes to the end; \<^verbatim>\<open>k in d\<close> and \<^verbatim>\<open>d[k]\<close> are \<^const>\<open>map_of\<close>), which is the
  iteration order of \<^verbatim>\<open>dict\<close> from Python 3.7 on and of \<^verbatim>\<open>OrderedDict\<close>.
  Objects that refer to each other (the Definitions, through their \<^verbatim>\<open>imports\<close>) live in
  a store, a list indexed by object identity. An exception is a value of type
  \<open>error\<close>; a function that may raise returns \<open>error + 'a\<close>.
\<close>

subsection \<open>XML elements (the part of lxml the module uses)\<close>

datatype xml = Element (tag: string) (attrib: "(string \<times> string) list") (children: "xml list")

text \<open>\<^verbatim>\<open>node.get(name)\<close>: the attribute's value, or \<^verbatim>\<open>None\<close>.\<close>

definition get_attr :: "xml \<Rightarrow> string \<Rightarrow> string option" where
  "get_attr node name = map_of (attrib node) name"

text \<open>\<^verbatim>\<open>node.set(name, value)\<close>.\<close>

definition set_attr :: "xml \<Rightarrow> string \<Rightarrow> string \<Rightarrow> xml" where
  "set_attr node name v = Element (tag node) (AList.update name v (attrib node)) (children node)"

text \<open>\<^verbatim>\<open>node.findall(t)\<close> and \<^verbatim>\<open>node.find(t)\<close> for a plain tag: the children with that tag,
  in document order, and the first of them.\<close>

definition findall :: "xml \<Rightarrow> string \<Rightarrow> xml list" where
  "findall node t = filter (\<lambda>c. tag c = t) (children node)"

definition find_child :: "xml \<Rightarrow> string \<Rightarrow> xml option" where
  "find_child node t = List.find (\<lambda>c. tag c = t) (children node)"

text \<open>\<^verbatim>\<open>etree.QName(t).localname\<close> of a tag in Clark notation \<^verbatim>\<open>{namespace}local\<close>.\<close>

definition localname :: "string \<Rightarrow> string" where
  "localname t = (case t of
       [] \<Rightarrow> []
     | c # r \<Rightarrow> if c = CHR ''{'' then drop 1 (dropWhile (\<lambda>x. x \<noteq> CHR ''}'') r) else t)"

text \<open>The tags built from \<^verbatim>\<open>NSMAP\<close> (\<^verbatim>\<open>wsdl:import\<close> and so on) and the XSD tags.\<close>

definition wsdl_ns :: string where
  "wsdl_ns = ''http://schemas.xmlsoap.org/wsdl/''"

definition wsdl_tag :: "string \<Rightarrow> string" where
  "wsdl_tag l = ''{'' @ wsdl_ns @ ''}'' @ l"

definition import_tag :: string where
  "import_tag = ''{http://www.w3.org/2001/XMLSchema}import''"

definition schema_tag :: string where
  "schema_tag = ''{http://www.w3.org/2001/XMLSchema}schema''"

definition namespace_sets :: "(string \<times> string) list list" where
  "namespace_sets = [[(''xsd'', ''http://www.w3.org/2001/XMLSchema'')],
                     [(''xsd'', ''http://www.w3.org/1999/XMLSchema'')]]"

subsection \<open>Exceptions, schemas, Definitions, the Document\<close>

text \<open>
  \<open>IndexError\<close> carries the message of the exception, \<open>KeyError\<close> the key that
  was missing; \<open>External\<close> is any exception raised inside a collaborator (loader, XML
  parser, the parsers and resolvers of messages, port types, bindings and services).
\<close>

datatype error = IndexError string | KeyError "string option" | External string

text \<open>
  \<^verbatim>\<open>zeep.xsd.Schema\<close> is not part of this module. A schema object is the record of the
  constructor call \<^verbatim>\<open>Schema(node, transport, location, parser_context, base_url)\<close> that
  made it: its node (\<^verbatim>\<open>None\<close> for the explicitly empty schema) and its location;
  transport and parser context are the Document's and the same in every call. The
  constructor parses the node it is given and may raise; that is the collaborator
  \<open>schema_error\<close> below, and \<open>new_Schema\<close> is the constructor call on a node.
\<close>

datatype schema = Schema (sch_node: "xml option") (sch_location: "string option")

record 'e Definition =
  location :: "string option"
  schema :: "schema option"
  port_types :: "(string \<times> 'e) list"
  messages :: "(string \<times> 'e) list"
  bindings :: "(string \<times> 'e) list"
  services :: "(string \<times> 'e) list"
  "imports" :: "(string option \<times> nat) list"
  resolved_imports :: bool
  target_namespace :: "string option"

text \<open>The Document: its location, the registry \<^verbatim>\<open>_definitions\<close> (target namespace to
  Definition) and the store of all Definition objects created so far.\<close>

record 'e wsdl =
  wsdl_location :: "string option"
  definitions_reg :: "(string option \<times> nat) list"
  objs :: "'e Definition list"

text \<open>The four tables \<^verbatim>\<open>getattr(self, name)\<close> is used on, with their attribute names.\<close>

datatype table = Messages | PortTypes | Bindings | Services

fun container :: "table \<Rightarrow> 'e Definition \<Rightarrow> (string \<times> 'e) list" where
  "container Messages d = messages d"
| "container PortTypes d = port_types d"
| "container Bindings d = bindings d"
| "container Services d = services d"

fun table_attr :: "table \<Rightarrow> string" where
  "table_attr Messages = ''messages''"
| "table_attr PortTypes = ''port_types''"
| "table_attr Bindings = ''bindings''"
| "table_attr Services = ''services''"

text \<open>\<^verbatim>\<open>'%r' % name\<close> for an attribute name: the name between single quotes.\<close>

definition repr :: "string \<Rightarrow> string" where
  "repr s = [CHR 0x27] @ s @ [CHR 0x27]"

text \<open>The object \<^verbatim>\<open>Definition.__init__\<close> starts from (lines 129 to 141).\<close>

definition new_Definition :: "string option \<Rightarrow> string option \<Rightarrow> 'e Definition" where
  "new_Definition loc tns =
     \<lparr>location = loc, schema = None, port_types = [], messages = [], bindings = [],
      services = [], imports = [], resolved_imports = False, target_namespace = tns\<rparr>"

text \<open>An attribute assignment on the object \<open>i\<close> of the store.\<close>

definition upd :: "'e wsdl \<Rightarrow> nat \<Rightarrow> ('e Definition \<Rightarrow> 'e Definition) \<Rightarrow> 'e wsdl" where
  "upd st i g = st\<lparr>objs := (objs st)[i := g (objs st ! i)]\<rparr>"

fun set_container :: "table \<Rightarrow> (string \<times> 'e) list \<Rightarrow> 'e Definition \<Rightarrow> 'e Definition" where
  "set_container Messages v d = d\<lparr>messages := v\<rparr>"
| "set_container PortTypes v d = d\<lparr>port_types := v\<rparr>"
| "set_container Bindings v d = d\<lparr>bindings := v\<rparr>"
| "set_container Services v d = d\<lparr>services := v\<rparr>"

subsection \<open>Definition.get\<close>

text \<open>
  \<^verbatim>\<open>
  def get(self, name, key):
      container = getattr(self, name)
      if key in container:
          return container[key]
      for definition in self.imports.values():
          container = getattr(definition, name)
          if key in container:
              return container[key]
      raise IndexError("No definition %r found" % name)
  \<close>
  \<open>get_imports\<close> is the loop over \<^verbatim>\<open>self.imports.values()\<close> with the \<^verbatim>\<open>raise\<close> after it.
\<close>

fun get_imports :: "'e Definition list \<Rightarrow> nat list \<Rightarrow> table \<Rightarrow> string \<Rightarrow> error + 'e" where
  "get_imports h [] name key = Inl (IndexError (''No definition '' @ repr (table_attr name) @ '' found''))"
| "get_imports h (d # ds) name key =
     (case map_of (container name (h ! d)) key of
        Some v \<Rightarrow> Inr v
      | None \<Rightarrow> get_imports h ds name key)"

definition get :: "'e Definition list \<Rightarrow> nat \<Rightarrow> table \<Rightarrow> string \<Rightarrow> error + 'e" where
  "get h self name key =
     (case map_of (container name (h ! self)) key of
        Some v \<Rightarrow> Inr v
      | None \<Rightarrow> get_imports h (map snd (imports (h ! self))) name key)"

subsection \<open>Collaborators\<close>

text \<open>
  The module calls code that is not part of it: the loader and XML parser
  (\<^verbatim>\<open>zeep.parser\<close>), \<^verbatim>\<open>zeep.utils.findall_multiple_ns\<close>, the schema's \<^verbatim>\<open>is_empty\<close>, and
  the classes of \<^verbatim>\<open>zeep.wsdl.definitions\<close>, \<^verbatim>\<open>soap\<close> and \<^verbatim>\<open>http\<close>. They are parameters of
  the model, collected in one record, and every theorem holds for all of them.
  \<^item> \<open>load_external location base\<close> and \<open>parse_xml content base_url\<close> return the
    root element or raise;
  \<^item> \<open>tostring\<close> is \<^verbatim>\<open>etree.tostring\<close>;
  \<^item> \<open>entity_parse\<close> is \<^verbatim>\<open>AbstractMessage.parse\<close>, \<^verbatim>\<open>PortType.parse\<close> and \<^verbatim>\<open>Service.parse\<close>
    (by table), called with the Definition as it is at that moment and the node;
  \<^item> \<open>binding_match\<close> and \<open>binding_parse\<close> are \<^verbatim>\<open>match\<close> and \<^verbatim>\<open>parse\<close> of the four
    binding classes;
  \<^item> \<open>schema_error node location\<close> is the exception that \<^verbatim>\<open>Schema(node, ...)\<close> raises
    for a node, if it raises one;
  \<^item> \<open>entity_name\<close> is \<^verbatim>\<open>name.text\<close> of a message, port type or binding and \<^verbatim>\<open>name\<close> of a
    service; reading it raises (\<^verbatim>\<open>AttributeError\<close>) when the parsed entity has no name;
  \<^item> \<open>entity_resolve\<close> is \<^verbatim>\<open>resolve(definition)\<close> of an entity: it sees the Document and
    the Definition and returns the entity as it is afterwards, or raises.
\<close>

datatype binding_kind = Soap11Binding | Soap12Binding | HttpGetBinding | HttpPostBinding

record 'e collab =
  load_external :: "string option \<Rightarrow> string option \<Rightarrow> error + xml"
  parse_xml :: "string \<Rightarrow> string option \<Rightarrow> error + xml"
  tostring :: "xml \<Rightarrow> string"
  absolute_location :: "string option \<Rightarrow> string option \<Rightarrow> string option"
  findall_multiple_ns :: "xml \<Rightarrow> string \<Rightarrow> (string \<times> string) list list \<Rightarrow> xml list"
  schema_error :: "xml \<Rightarrow> string option \<Rightarrow> error option"
  is_empty :: "schema \<Rightarrow> bool"
  entity_parse :: "table \<Rightarrow> 'e Definition \<Rightarrow> xml \<Rightarrow> error + 'e"
  binding_match :: "binding_kind \<Rightarrow> xml \<Rightarrow> bool"
  binding_parse :: "binding_kind \<Rightarrow> 'e Definition \<Rightarrow> xml \<Rightarrow> error + 'e"
  entity_name :: "table \<Rightarrow> 'e \<Rightarrow> error + string"
  entity_resolve :: "table \<Rightarrow> 'e \<Rightarrow> 'e wsdl \<Rightarrow> nat \<Rightarrow> error + 'e"

text \<open>\<^verbatim>\<open>Schema(node, self.wsdl.transport, location, self.wsdl._parser_context, location)\<close>
  for a node: the exception of the constructor, or the new schema object.\<close>

definition new_Schema :: "'e collab \<Rightarrow> xml \<Rightarrow> string option \<Rightarrow> error + schema" where
  "new_Schema c node loc =
     (case schema_error c node loc of
        Some e \<Rightarrow> Inl e
      | None \<Rightarrow> Inr (Schema (Some node) loc))"

subsection \<open>Document._load_content\<close>

text \<open>The argument is a file object (\<^verbatim>\<open>hasattr(location, 'read')\<close>), given by what
  \<^verbatim>\<open>read()\<close> returns, or a string or \<^verbatim>\<open>None\<close>.\<close>

datatype pyloc = FileObj string | Str "string option"

definition load_content :: "'e collab \<Rightarrow> string option \<Rightarrow> pyloc \<Rightarrow> error + xml" where
  "load_content c self_location loc =
     (case loc of
        FileObj content \<Rightarrow> parse_xml c content None
      | Str l \<Rightarrow> load_external c l self_location)"

subsection \<open>Definition.parse_types\<close>

text \<open>\<^verbatim>\<open>'%d' % i\<close>.\<close>

fun dec :: "nat \<Rightarrow> string" where
  "dec n = (if n < 10 then [''0123456789'' ! n]
            else dec (n div 10) @ [''0123456789'' ! (n mod 10)])"

declare dec.simps [simp del]

definition int_name :: "nat \<Rightarrow> string" where
  "int_name i = ''intschema:xsd'' @ dec i"

text \<open>Lines 258 to 263: the schema nodes under \<^verbatim>\<open>wsdl:types\<close>.\<close>

definition find_schema_nodes :: "'e collab \<Rightarrow> xml \<Rightarrow> xml list" where
  "find_schema_nodes c doc =
     (case find_child doc (wsdl_tag ''types'') of
        None \<Rightarrow> []
      | Some types \<Rightarrow>
          if length (children types) = 0 then []
          else findall_multiple_ns c types ''xsd:schema'' namespace_sets)"

text \<open>Lines 269 to 272: every node is serialised and parsed again, in order.\<close>

fun reparse_all :: "'e collab \<Rightarrow> string option \<Rightarrow> xml list \<Rightarrow> error + xml list" where
  "reparse_all c loc [] = Inr []"
| "reparse_all c loc (n # ns) =
     (case parse_xml c (tostring c n) loc of
        Inl e \<Rightarrow> Inl e
      | Inr x \<Rightarrow> (case reparse_all c loc ns of Inl e \<Rightarrow> Inl e | Inr xs \<Rightarrow> Inr (x # xs)))"

text \<open>
  Lines 286 to 291: the dictionary \<^verbatim>\<open>schema_ns\<close>, target namespace to internal location.
  The two writes to the parser context (a table of the external \<^verbatim>\<open>ParserContext\<close> that
  this module never reads) are not part of the model.
\<close>

fun schema_ns_loop ::
  "nat \<Rightarrow> xml list \<Rightarrow> (string option \<times> string) list \<Rightarrow> (string option \<times> string) list" where
  "schema_ns_loop i [] schema_ns = schema_ns"
| "schema_ns_loop i (schema_node # rest) schema_ns =
     schema_ns_loop (Suc i) rest
       (AList.update (get_attr schema_node ''targetNamespace'') (int_name i) schema_ns)"

text \<open>
  Lines 310 to 316, the loop over the \<^verbatim>\<open>xsd:import\<close> children of one schema node; \<open>acc\<close>
  is the list of the container's children so far. \<^verbatim>\<open>not location\<close> holds for \<^verbatim>\<open>None\<close> and
  for the empty string; \<^verbatim>\<open>schema_ns[namespace]\<close> raises \<^verbatim>\<open>KeyError\<close> on a missing key.
  The code sets the attribute on the directive itself and appends a deep copy; the
  container gets the directive as it is after the assignment.
\<close>

fun copy_imports ::
  "(string option \<times> string) list \<Rightarrow> xml list \<Rightarrow> xml list \<Rightarrow> error + xml list" where
  "copy_imports schema_ns [] acc = Inr acc"
| "copy_imports schema_ns (import_node # rest) acc =
     (let loc = get_attr import_node ''schemaLocation'';
          namespace = get_attr import_node ''namespace''
      in if loc = None \<or> loc = Some []
         then (case map_of schema_ns namespace of
                 None \<Rightarrow> Inl (KeyError namespace)
               | Some int_loc \<Rightarrow>
                   copy_imports schema_ns rest
                     (acc @ [set_attr import_node ''schemaLocation'' int_loc]))
         else copy_imports schema_ns rest (acc @ [import_node]))"

text \<open>Lines 299 to 316, the loop over the schema nodes.\<close>

definition own_import :: "nat \<Rightarrow> xml \<Rightarrow> xml" where
  "own_import i schema_node =
     (let import_node = set_attr (Element import_tag [] []) ''schemaLocation'' (int_name i)
      in case get_attr schema_node ''targetNamespace'' of
           None \<Rightarrow> import_node
         | Some t \<Rightarrow> if t = [] then import_node else set_attr import_node ''namespace'' t)"

fun container_loop ::
  "(string option \<times> string) list \<Rightarrow> nat \<Rightarrow> xml list \<Rightarrow> xml list \<Rightarrow> error + xml list" where
  "container_loop schema_ns i [] acc = Inr acc"
| "container_loop schema_ns i (schema_node # rest) acc =
     (case copy_imports schema_ns (findall schema_node import_tag)
             (acc @ [own_import i schema_node]) of
        Inl e \<Rightarrow> Inl e
      | Inr acc' \<Rightarrow> container_loop schema_ns (Suc i) rest acc')"

definition parse_types :: "'e collab \<Rightarrow> string option \<Rightarrow> xml \<Rightarrow> error + schema option" where
  "parse_types c loc doc =
     (let schema_nodes = find_schema_nodes c doc
      in if schema_nodes = [] then Inr None
         else case reparse_all c loc schema_nodes of
                Inl e \<Rightarrow> Inl e
              | Inr nodes \<Rightarrow>
                  if length nodes = 1
                  then (case new_Schema c (nodes ! 0) loc of
                          Inl e \<Rightarrow> Inl e
                        | Inr s \<Rightarrow> Inr (Some s))
                  else (case container_loop (schema_ns_loop 0 nodes []) 0 nodes [] of
                          Inl e \<Rightarrow> Inl e
                        | Inr cs \<Rightarrow>
                            (case new_Schema c (Element schema_tag [] cs) loc of
                               Inl e \<Rightarrow> Inl e
                             | Inr s \<Rightarrow> Inr (Some s))))"

subsection \<open>parse_messages, parse_ports, parse_service, parse_binding\<close>

text \<open>The three loops of the form
  \<^verbatim>\<open>for node in doc.findall(tag): x = C.parse(self, node); result[name(x)] = x\<close>. Both
  the parse and the reading of the name may raise.\<close>

fun parse_entities ::
  "'e collab \<Rightarrow> table \<Rightarrow> 'e Definition \<Rightarrow> xml list \<Rightarrow> (string \<times> 'e) list \<Rightarrow> error + (string \<times> 'e) list" where
  "parse_entities c t self [] result = Inr result"
| "parse_entities c t self (node # rest) result =
     (case entity_parse c t self node of
        Inl e \<Rightarrow> Inl e
      | Inr x \<Rightarrow>
          (case entity_name c t x of
             Inl e \<Rightarrow> Inl e
           | Inr k \<Rightarrow> parse_entities c t self rest (AList.update k x result)))"

definition parse_messages :: "'e collab \<Rightarrow> 'e Definition \<Rightarrow> xml \<Rightarrow> error + (string \<times> 'e) list" where
  "parse_messages c self doc = parse_entities c Messages self (findall doc (wsdl_tag ''message'')) []"

definition parse_ports :: "'e collab \<Rightarrow> 'e Definition \<Rightarrow> xml \<Rightarrow> error + (string \<times> 'e) list" where
  "parse_ports c self doc = parse_entities c PortTypes self (findall doc (wsdl_tag ''portType'')) []"

definition parse_service :: "'e collab \<Rightarrow> 'e Definition \<Rightarrow> xml \<Rightarrow> error + (string \<times> 'e) list" where
  "parse_service c self doc = parse_entities c Services self (findall doc (wsdl_tag ''service'')) []"

text \<open>Lines 391 to 406. \<open>store_binding\<close> is the parse of the matched class followed by
  \<^verbatim>\<open>result[binding.name.text] = binding\<close>, where \<^verbatim>\<open>binding.name.text\<close> raises for a
  binding without a name; the last branch is the \<^verbatim>\<open>continue\<close>.\<close>

definition store_binding ::
  "'e collab \<Rightarrow> 'e Definition \<Rightarrow> binding_kind \<Rightarrow> xml \<Rightarrow> (string \<times> 'e) list \<Rightarrow> error + (string \<times> 'e) list" where
  "store_binding c self k node result =
     (case binding_parse c k self node of
        Inl e \<Rightarrow> Inl e
      | Inr binding \<Rightarrow>
          (case entity_name c Bindings binding of
             Inl e \<Rightarrow> Inl e
           | Inr k \<Rightarrow> Inr (AList.update k binding result)))"

fun parse_binding_loop ::
  "'e collab \<Rightarrow> 'e Definition \<Rightarrow> xml list \<Rightarrow> (string \<times> 'e) list \<Rightarrow> error + (string \<times> 'e) list" where
  "parse_binding_loop c self [] result = Inr result"
| "parse_binding_loop c self (binding_node # rest) result =
     (if binding_match c Soap11Binding binding_node then
        (case store_binding c self Soap11Binding binding_node result of
           Inl e \<Rightarrow> Inl e | Inr result' \<Rightarrow> parse_binding_loop c self rest result')
      else if binding_match c Soap12Binding binding_node then
        (case store_binding c self Soap12Binding binding_node result of
           Inl e \<Rightarrow> Inl e | Inr result' \<Rightarrow> parse_binding_loop c self rest result')
      else if binding_match c HttpGetBinding binding_node then
        (case store_binding c self HttpGetBinding binding_node result of
           Inl e \<Rightarrow> Inl e | Inr result' \<Rightarrow> parse_binding_loop c self rest result')
      else if binding_match c HttpPostBinding binding_node then
        (case store_binding c self HttpPostBinding binding_node result of
           Inl e \<Rightarrow> Inl e | Inr result' \<Rightarrow> parse_binding_loop c self rest result')
      else parse_binding_loop c self rest result)"

definition parse_binding :: "'e collab \<Rightarrow> 'e Definition \<Rightarrow> xml \<Rightarrow> error + (string \<times> 'e) list" where
  "parse_binding c self doc = parse_binding_loop c self (findall doc (wsdl_tag ''binding'')) []"

subsection \<open>Definition.__init__ and Definition.parse_imports\<close>

text \<open>Lines 148 to 152: the five assignments after \<^verbatim>\<open>parse_imports\<close>, each parser seeing
  the Definition as the assignments before it left it.\<close>

definition parse_body :: "'e collab \<Rightarrow> 'e wsdl \<Rightarrow> nat \<Rightarrow> xml \<Rightarrow> error + 'e wsdl" where
  "parse_body c st self doc =
     (case parse_types c (location (objs st ! self)) doc of
        Inl e \<Rightarrow> Inl e
      | Inr s \<Rightarrow>
     let st1 = upd st self (\<lambda>d. d\<lparr>schema := s\<rparr>) in
     case parse_messages c (objs st1 ! self) doc of
        Inl e \<Rightarrow> Inl e
      | Inr ms \<Rightarrow>
     let st2 = upd st1 self (\<lambda>d. d\<lparr>messages := ms\<rparr>) in
     case parse_ports c (objs st2 ! self) doc of
        Inl e \<Rightarrow> Inl e
      | Inr ps \<Rightarrow>
     let st3 = upd st2 self (\<lambda>d. d\<lparr>port_types := ps\<rparr>) in
     case parse_binding c (objs st3 ! self) doc of
        Inl e \<Rightarrow> Inl e
      | Inr bs \<Rightarrow>
     let st4 = upd st3 self (\<lambda>d. d\<lparr>bindings := bs\<rparr>) in
     case parse_service c (objs st4 ! self) doc of
        Inl e \<Rightarrow> Inl e
      | Inr ss \<Rightarrow> Inr (upd st4 self (\<lambda>d. d\<lparr>services := ss\<rparr>)))"

text \<open>
  The constructor and \<^verbatim>\<open>parse_imports\<close> call each other, and nothing in the code bounds
  the depth of the calls, so both take fuel: \<open>None\<close> is a construction that has not
  returned within the fuel, \<open>Some (Inl e)\<close> one that raised, \<open>Some (Inr _)\<close> one that
  returned. The constructor spends one unit of fuel; the loop over the import nodes
  spends none. The new object is appended to the store, so its identity is the length
  of the store before the call; the constructor returns the Document's state and that
  identity.
\<close>

fun Definition_init ::
  "nat \<Rightarrow> 'e collab \<Rightarrow> 'e wsdl \<Rightarrow> xml \<Rightarrow> string option \<Rightarrow> (error + 'e wsdl \<times> nat) option"
and parse_imports ::
  "nat \<Rightarrow> 'e collab \<Rightarrow> 'e wsdl \<Rightarrow> nat \<Rightarrow> xml list \<Rightarrow> (error + 'e wsdl) option" where
  "Definition_init 0 c st doc loc = None"
| "Definition_init (Suc f) c st doc loc =
     (let self = length (objs st);
          tns = get_attr doc ''targetNamespace'';
          st1 = st\<lparr>objs := objs st @ [new_Definition loc tns],
                   definitions_reg := AList.update tns self (definitions_reg st)\<rparr>
      in case parse_imports f c st1 self (findall doc (wsdl_tag ''import'')) of
           None \<Rightarrow> None
         | Some (Inl e) \<Rightarrow> Some (Inl e)
         | Some (Inr st2) \<Rightarrow>
             Some (case parse_body c st2 self doc of
                     Inl e \<Rightarrow> Inl e
                   | Inr st3 \<Rightarrow> Inr (st3, self)))"
| "parse_imports f c st self [] = Some (Inr st)"
| "parse_imports f c st self (import_node # rest) =
     (let loc = get_attr import_node ''location'';
          namespace = get_attr import_node ''namespace''
      in case map_of (definitions_reg st) namespace of
           Some d \<Rightarrow>
             parse_imports f c
               (upd st self (\<lambda>x. x\<lparr>imports := AList.update namespace d (imports x)\<rparr>)) self rest
         | None \<Rightarrow>
            (case load_content c (wsdl_location st) (Str loc) of
               Inl e \<Rightarrow> Some (Inl e)
             | Inr document \<Rightarrow>
                 let loc' = absolute_location c loc (location (objs st ! self))
                 in if localname (tag document) = ''schema''
                    then (case new_Schema c document loc' of
                            Inl e \<Rightarrow> Some (Inl e)
                          | Inr s \<Rightarrow>
                              parse_imports f c (upd st self (\<lambda>x. x\<lparr>schema := Some s\<rparr>)) self rest)
                    else (case Definition_init f c st document loc' of
                            None \<Rightarrow> None
                          | Some (Inl e) \<Rightarrow> Some (Inl e)
                          | Some (Inr (st', w)) \<Rightarrow>
                              parse_imports f c
                                (upd st' self
                                   (\<lambda>x. x\<lparr>imports := AList.update namespace w (imports x)\<rparr>))
                                self rest)))"

subsection \<open>Definition.resolve_imports\<close>

text \<open>
  Lines 178 to 185. A \<^verbatim>\<open>for\<close> loop's \<^verbatim>\<open>else\<close> branch runs when the loop ends without
  \<^verbatim>\<open>break\<close>; the loop has no \<^verbatim>\<open>break\<close>, so the branch is what follows the last
  iteration. \<^verbatim>\<open>definition.schema\<close> is true as a condition when it is not \<^verbatim>\<open>None\<close>.
  \<^verbatim>\<open>Schema(None, ...)\<close> of line 183 is given no node to parse; it is the schema object
  with no node.
\<close>

fun adopt_schema :: "'e collab \<Rightarrow> 'e wsdl \<Rightarrow> nat \<Rightarrow> nat list \<Rightarrow> 'e wsdl" where
  "adopt_schema c st self [] =
     upd st self (\<lambda>d. d\<lparr>schema := Some (Schema None (location (objs st ! self)))\<rparr>)"
| "adopt_schema c st self (d # ds) =
     adopt_schema c
       (case schema (objs st ! d) of
          None \<Rightarrow> st
        | Some s \<Rightarrow> if \<not> is_empty c s then upd st self (\<lambda>x. x\<lparr>schema := Some s\<rparr>) else st)
       self ds"

text \<open>
  Lines 190 to 200: \<^verbatim>\<open>for x in table.values(): x.resolve(self)\<close>, once per table. The
  entity is changed in place, so its table keeps its keys and their order. An exception
  leaves the loop with the state reached so far.
\<close>

fun resolve_table ::
  "'e collab \<Rightarrow> table \<Rightarrow> 'e wsdl \<Rightarrow> nat \<Rightarrow> (string \<times> 'e) list \<Rightarrow> 'e wsdl \<times> error option" where
  "resolve_table c t st self [] = (st, None)"
| "resolve_table c t st self ((k, x) # rest) =
     (case entity_resolve c t x st self of
        Inl e \<Rightarrow> (st, Some e)
      | Inr x' \<Rightarrow>
          resolve_table c t
            (upd st self (\<lambda>d. set_container t (AList.update k x' (container t d)) d)) self rest)"

definition resolve_entities :: "'e collab \<Rightarrow> 'e wsdl \<Rightarrow> nat \<Rightarrow> 'e wsdl \<times> error option" where
  "resolve_entities c st self =
     (case resolve_table c Messages st self (messages (objs st ! self)) of
        (st1, Some e) \<Rightarrow> (st1, Some e)
      | (st1, None) \<Rightarrow>
     case resolve_table c PortTypes st1 self (port_types (objs st1 ! self)) of
        (st2, Some e) \<Rightarrow> (st2, Some e)
      | (st2, None) \<Rightarrow>
     case resolve_table c Bindings st2 self (bindings (objs st2 ! self)) of
        (st3, Some e) \<Rightarrow> (st3, Some e)
      | (st3, None) \<Rightarrow> resolve_table c Services st3 self (services (objs st3 ! self)))"

text \<open>
  \<^verbatim>\<open>resolve_imports\<close> calls itself on the imports, so it takes fuel like the constructor.
  It returns the state it leaves behind and the exception, if one was raised: the
  objects keep what was assigned before the exception.
\<close>

fun resolve_imports ::
  "nat \<Rightarrow> 'e collab \<Rightarrow> 'e wsdl \<Rightarrow> nat \<Rightarrow> ('e wsdl \<times> error option) option"
and resolve_each ::
  "nat \<Rightarrow> 'e collab \<Rightarrow> 'e wsdl \<Rightarrow> nat list \<Rightarrow> ('e wsdl \<times> error option) option" where
  "resolve_imports 0 c st self = None"
| "resolve_imports (Suc f) c st self =
     (if resolved_imports (objs st ! self) then Some (st, None)
      else
        let st1 = upd st self (\<lambda>d. d\<lparr>resolved_imports := True\<rparr>);
            st2 = (if schema (objs st1 ! self) = None
                   then adopt_schema c st1 self (map snd (imports (objs st1 ! self)))
                   else st1)
        in case resolve_each f c st2 (map snd (imports (objs st2 ! self))) of
             None \<Rightarrow> None
           | Some (st3, Some e) \<Rightarrow> Some (st3, Some e)
           | Some (st3, None) \<Rightarrow> Some (resolve_entities c st3 self))"
| "resolve_each f c st [] = Some (st, None)"
| "resolve_each f c st (d # ds) =
     (case resolve_imports f c st d of
        None \<Rightarrow> None
      | Some (st', Some e) \<Rightarrow> Some (st', Some e)
      | Some (st', None) \<Rightarrow> resolve_each f c st' ds)"

subsection \<open>Document.__init__\<close>

text \<open>
  Lines 48 to 67. The result is the Document's state and the identity of the root
  Definition; the public attributes \<^verbatim>\<open>schema\<close>, \<^verbatim>\<open>messages\<close>, \<^verbatim>\<open>port_types\<close>, \<^verbatim>\<open>bindings\<close>
  and \<^verbatim>\<open>services\<close> are those of the root.
\<close>

definition Document_init :: "nat \<Rightarrow> 'e collab \<Rightarrow> pyloc \<Rightarrow> (error + 'e wsdl \<times> nat) option" where
  "Document_init f c loc =
     (let self_location = (case loc of FileObj content \<Rightarrow> None | Str l \<Rightarrow> l);
          st0 = \<lparr>wsdl_location = self_location, definitions_reg = [], objs = []\<rparr>
      in case load_content c self_location loc of
           Inl e \<Rightarrow> Some (Inl e)
         | Inr document \<Rightarrow>
            (case Definition_init f c st0 document self_location of
               None \<Rightarrow> None
             | Some (Inl e) \<Rightarrow> Some (Inl e)
             | Some (Inr (st1, root_definitions)) \<Rightarrow>
                (case resolve_imports f c st1 root_definitions of
                   None \<Rightarrow> None
                 | Some (st2, Some e) \<Rightarrow> Some (Inl e)
                 | Some (st2, None) \<Rightarrow> Some (Inr (st2, root_definitions)))))"

section \<open>Example documents and specification-side definitions\<close>

subsection \<open>A concrete set of collaborators, for the examples\<close>

text \<open>
  Entities are pairs of a class name and a name. Documents are loaded from a table of
  files; a serialised node is parsed back from a table keyed by its \<^verbatim>\<open>id\<close> attribute;
  \<^verbatim>\<open>findall_multiple_ns\<close> collects the matches of each namespace set in turn; the schema
  constructor refuses a node with an import that has no schema location; a binding
  matches a class when it has that class's extensibility child; every entity has a name.
\<close>

fun binding_marker :: "binding_kind \<Rightarrow> string" where
  "binding_marker Soap11Binding = ''{http://schemas.xmlsoap.org/wsdl/soap/}binding''"
| "binding_marker Soap12Binding = ''{http://schemas.xmlsoap.org/wsdl/soap12/}binding''"
| "binding_marker HttpGetBinding = ''{http://schemas.xmlsoap.org/wsdl/http/}get''"
| "binding_marker HttpPostBinding = ''{http://schemas.xmlsoap.org/wsdl/http/}post''"

fun binding_class :: "binding_kind \<Rightarrow> string" where
  "binding_class Soap11Binding = ''Soap11Binding''"
| "binding_class Soap12Binding = ''Soap12Binding''"
| "binding_class HttpGetBinding = ''HttpGetBinding''"
| "binding_class HttpPostBinding = ''HttpPostBinding''"

definition ex_named :: "string \<Rightarrow> xml \<Rightarrow> error + string \<times> string" where
  "ex_named cls node =
     (case get_attr node ''name'' of
        None \<Rightarrow> Inl (External ''name missing'')
      | Some n \<Rightarrow> Inr (cls, n))"

definition ex_collab ::
  "(string option \<times> xml) list \<Rightarrow> (string \<times> xml) list \<Rightarrow> (string \<times> string) collab" where
  "ex_collab files fragments =
     \<lparr>load_external = (\<lambda>l base. case map_of files l of
                                   None \<Rightarrow> Inl (External ''not found'')
                                 | Some d \<Rightarrow> Inr d),
      parse_xml = (\<lambda>content base. case map_of fragments content of
                                     None \<Rightarrow> Inl (External ''syntax error'')
                                   | Some d \<Rightarrow> Inr d),
      tostring = (\<lambda>node. case get_attr node ''id'' of None \<Rightarrow> [] | Some i \<Rightarrow> i),
      absolute_location = (\<lambda>l base. l),
      findall_multiple_ns = (\<lambda>node name sets.
         concat (map (\<lambda>nsmap. case map_of nsmap ''xsd'' of
                                 None \<Rightarrow> []
                               | Some u \<Rightarrow> findall node (''{'' @ u @ ''}schema'')) sets)),
      schema_error = (\<lambda>node loc.
         if list_ex (\<lambda>d. get_attr d ''schemaLocation'' = None) (findall node import_tag)
         then Some (External ''InvalidSchema'') else None),
      is_empty = (\<lambda>s. sch_node s = None),
      entity_parse = (\<lambda>t self node. ex_named (table_attr t) node),
      binding_match = (\<lambda>k node. findall node (binding_marker k) \<noteq> []),
      binding_parse = (\<lambda>k self node. ex_named (binding_class k) node),
      entity_name = (\<lambda>t x. Inr (snd x)),
      entity_resolve = (\<lambda>t x st self. Inr (fst x @ '' (resolved)'', snd x))\<rparr>"

definition ex_lookup :: "nat Definition list" where
  "ex_lookup =
     [(new_Definition (Some ''a.wsdl'') (Some ''urn:a''))
        \<lparr>messages := [(''Shared'', 10)], imports := [(Some ''urn:b'', 1), (Some ''urn:c'', 2)]\<rparr>,
      (new_Definition (Some ''b.wsdl'') (Some ''urn:b''))
        \<lparr>messages := [(''OnlyB'', 20)], imports := [(Some ''urn:c'', 2)]\<rparr>,
      (new_Definition (Some ''c.wsdl'') (Some ''urn:c''))
        \<lparr>messages := [(''Shared'', 30), (''OnlyC'', 31)]\<rparr>]"

definition ex_chain :: "nat Definition list" where
  "ex_chain =
     [(new_Definition (Some ''a.wsdl'') (Some ''urn:a''))
        \<lparr>messages := [(''OnlyA'', 10)], imports := [(Some ''urn:b'', 1)]\<rparr>,
      (new_Definition (Some ''b.wsdl'') (Some ''urn:b''))
        \<lparr>messages := [(''OnlyB'', 20)], imports := [(Some ''urn:c'', 2)]\<rparr>,
      (new_Definition (Some ''c.wsdl'') (Some ''urn:c''))
        \<lparr>messages := [(''OnlyC'', 31)]\<rparr>]"

subsection \<open>The binding classifier, as the specification words it\<close>

text \<open>The first of the four classes, in the fixed order, whose matcher accepts the node.\<close>

definition classify :: "'e collab \<Rightarrow> xml \<Rightarrow> binding_kind option" where
  "classify c node =
     List.find (\<lambda>k. binding_match c k node)
       [Soap11Binding, Soap12Binding, HttpGetBinding, HttpPostBinding]"

text \<open>The declarations some classifier matches, each with its class, in document order.\<close>

definition classified :: "'e collab \<Rightarrow> xml list \<Rightarrow> (binding_kind \<times> xml) list" where
  "classified c nodes = List.map_filter (\<lambda>n. map_option (\<lambda>k. (k, n)) (classify c n)) nodes"

text \<open>Parsing a list of classified declarations into a table, in order.\<close>

fun store_all ::
  "'e collab \<Rightarrow> 'e Definition \<Rightarrow> (binding_kind \<times> xml) list \<Rightarrow> (string \<times> 'e) list \<Rightarrow> error + (string \<times> 'e) list" where
  "store_all c self [] result = Inr result"
| "store_all c self ((k, node) # rest) result =
     (case store_binding c self k node result of
        Inl e \<Rightarrow> Inl e
      | Inr result' \<Rightarrow> store_all c self rest result')"

text \<open>The parsed bindings of a list of classified declarations, each with its name, when
  every parse returns a binding that has a name.\<close>

fun parse_all ::
  "'e collab \<Rightarrow> 'e Definition \<Rightarrow> (binding_kind \<times> xml) list \<Rightarrow> error + (string \<times> 'e) list" where
  "parse_all c self [] = Inr []"
| "parse_all c self ((k, node) # rest) =
     (case binding_parse c k self node of
        Inl e \<Rightarrow> Inl e
      | Inr b \<Rightarrow>
          (case entity_name c Bindings b of
             Inl e \<Rightarrow> Inl e
           | Inr name \<Rightarrow>
               (case parse_all c self rest of
                  Inl e \<Rightarrow> Inl e
                | Inr bs \<Rightarrow> Inr ((name, b) # bs))))"

definition ex_binding_doc :: xml where
  "ex_binding_doc =
     Element (wsdl_tag ''definitions'') [(''targetNamespace'', ''urn:a'')]
       [Element (wsdl_tag ''binding'') [(''name'', ''Both'')]
          [Element (binding_marker Soap12Binding) [] [], Element (binding_marker Soap11Binding) [] []],
        Element (wsdl_tag ''binding'') [(''name'', ''Unknown'')]
          [Element ''{urn:other}binding'' [] []],
        Element (wsdl_tag ''binding'') [(''name'', ''Post'')]
          [Element (binding_marker HttpPostBinding) [] []]]"

subsection \<open>Schema stitching, as the specification words it\<close>

text \<open>The target namespace of a fragment, and whether an import directive comes without
  a schema location.\<close>

definition fragment_ns :: "xml \<Rightarrow> string option" where
  "fragment_ns fragment = get_attr fragment ''targetNamespace''"

definition lacks_location :: "xml \<Rightarrow> bool" where
  "lacks_location directive =
     (get_attr directive ''schemaLocation'' = None \<or> get_attr directive ''schemaLocation'' = Some [])"

text \<open>The synthetic token of the fragment with the given target namespace, counting the
  fragments from \<open>i\<close>; of two fragments with the same namespace the later one gives it.\<close>

fun token_from :: "nat \<Rightarrow> xml list \<Rightarrow> string option \<Rightarrow> string option" where
  "token_from i [] ns = None"
| "token_from i (fragment # rest) ns =
     (case token_from (Suc i) rest ns of
        Some t \<Rightarrow> Some t
      | None \<Rightarrow> if fragment_ns fragment = ns then Some (int_name i) else None)"

definition token_of :: "xml list \<Rightarrow> string option \<Rightarrow> string option" where
  "token_of fragments ns = token_from 0 fragments ns"

text \<open>The import directive the container gets for the fragment \<open>i\<close>.\<close>

definition fragment_import :: "nat \<Rightarrow> xml \<Rightarrow> xml" where
  "fragment_import i fragment =
     Element import_tag
       ((''schemaLocation'', int_name i) #
        (case fragment_ns fragment of
           None \<Rightarrow> []
         | Some t \<Rightarrow> if t = [] then [] else [(''namespace'', t)]))
       []"

text \<open>A directive of a fragment as it is copied into the container: rewritten to the
  token of the fragment it names when it has no location, unchanged when it has one.\<close>

definition rewritten :: "xml list \<Rightarrow> xml \<Rightarrow> xml" where
  "rewritten fragments directive =
     (if lacks_location directive
      then (case token_of fragments (get_attr directive ''namespace'') of
              None \<Rightarrow> directive
            | Some t \<Rightarrow> set_attr directive ''schemaLocation'' t)
      else directive)"

fun stitched_from :: "xml list \<Rightarrow> nat \<Rightarrow> xml list \<Rightarrow> xml list" where
  "stitched_from fragments i [] = []"
| "stitched_from fragments i (fragment # rest) =
     fragment_import i fragment # map (rewritten fragments) (findall fragment import_tag)
       @ stitched_from fragments (Suc i) rest"

definition stitched :: "xml list \<Rightarrow> xml list" where
  "stitched fragments = stitched_from fragments 0 fragments"

text \<open>An example: two fragments, the first importing the second by namespace alone and
  an outside schema by location; and the same with an import of a namespace that no
  fragment has.\<close>

definition ex_fragment_one :: xml where
  "ex_fragment_one =
     Element schema_tag [(''id'', ''f1''), (''targetNamespace'', ''urn:one'')]
       [Element import_tag [(''namespace'', ''urn:two'')] [],
        Element import_tag [(''namespace'', ''urn:ext''), (''schemaLocation'', ''ext.xsd'')] []]"

definition ex_fragment_two :: xml where
  "ex_fragment_two = Element schema_tag [(''id'', ''f2''), (''targetNamespace'', ''urn:two'')] []"

definition ex_fragment_bad :: xml where
  "ex_fragment_bad =
     Element schema_tag [(''id'', ''f3''), (''targetNamespace'', ''urn:three'')]
       [Element import_tag [(''namespace'', ''urn:missing'')] []]"

definition ex_fragments :: "(string \<times> xml) list" where
  "ex_fragments = [(''f1'', ex_fragment_one), (''f2'', ex_fragment_two), (''f3'', ex_fragment_bad)]"

definition ex_types_doc :: "xml list \<Rightarrow> xml" where
  "ex_types_doc fragments =
     Element (wsdl_tag ''definitions'') [(''targetNamespace'', ''urn:a'')]
       [Element (wsdl_tag ''types'') [] fragments]"

subsection \<open>What a call leaves untouched\<close>

text \<open>
  \<open>frame st st'\<close>: the state \<open>st'\<close> has the objects of \<open>st\<close>, with the same
  imports, target namespaces and locations, every \<^verbatim>\<open>_resolved_imports\<close> flag that was set
  still set, and the same registry. \<open>unresolved\<close> is the set of the objects whose flag
  is not set, and \<open>valid_imports\<close> says that every import refers to an object of the
  store.
\<close>

definition frame :: "'e wsdl \<Rightarrow> 'e wsdl \<Rightarrow> bool" where
  "frame st st' \<longleftrightarrow>
     length (objs st') = length (objs st) \<and>
     definitions_reg st' = definitions_reg st \<and>
     wsdl_location st' = wsdl_location st \<and>
     (\<forall>j < length (objs st).
        imports (objs st' ! j) = imports (objs st ! j) \<and>
        target_namespace (objs st' ! j) = target_namespace (objs st ! j) \<and>
        location (objs st' ! j) = location (objs st ! j) \<and>
        (resolved_imports (objs st ! j) \<longrightarrow> resolved_imports (objs st' ! j)))"

definition unresolved :: "'e wsdl \<Rightarrow> nat set" where
  "unresolved st = {j. j < length (objs st) \<and> \<not> resolved_imports (objs st ! j)}"

definition valid_imports :: "'e wsdl \<Rightarrow> bool" where
  "valid_imports st \<longleftrightarrow>
     (\<forall>j < length (objs st). \<forall>i \<in> snd ` set (imports (objs st ! j)). i < length (objs st))"

subsection \<open>Example states for the resolve phase\<close>

text \<open>Two Definitions that import each other; the first has no schema, the second has
  one that is not empty.\<close>

definition ex_schema :: schema where
  "ex_schema = Schema (Some (Element schema_tag [(''targetNamespace'', ''urn:b'')] [])) (Some ''b.wsdl'')"

definition ex_cycle :: "(string \<times> string) wsdl" where
  "ex_cycle =
     \<lparr>wsdl_location = Some ''a.wsdl'',
      definitions_reg = [(Some ''urn:a'', 0), (Some ''urn:b'', 1)],
      objs =
        [(new_Definition (Some ''a.wsdl'') (Some ''urn:a''))
           \<lparr>messages := [(''Ask'', (''messages'', ''Ask''))], imports := [(Some ''urn:b'', 1)]\<rparr>,
         (new_Definition (Some ''b.wsdl'') (Some ''urn:b''))
           \<lparr>schema := Some ex_schema, imports := [(Some ''urn:a'', 0)]\<rparr>]\<rparr>"

subsection \<open>Well-formed import declarations and the invariant of the store\<close>

text \<open>
  \<open>consistent_imports\<close>: every import declaration of the document names, in its
  \<^verbatim>\<open>namespace\<close> attribute, the target namespace of the WSDL document its location loads.
  \<open>wsdl_imports\<close> are the WSDL documents (not bare schemas) that the import
  declarations of a document load, and \<open>reachable\<close> the documents of the import graph
  of a root: the root and what is reached from it through \<open>wsdl_imports\<close>.
  \<open>registered\<close> is the set of the registry's keys. \<open>registry_ok\<close>: no two Definition
  objects have the same target namespace, the registry's keys are the target namespaces
  of the objects, and the registry and the imports refer to objects of the store.
  \<open>closed\<close>: every document of \<open>D\<close> whose namespace is registered and not in
  \<open>pending\<close> (the Definitions still under construction) has the namespaces of all its
  WSDL imports registered.
\<close>

definition doc_ns :: "xml \<Rightarrow> string option" where
  "doc_ns doc = get_attr doc ''targetNamespace''"

definition import_ok :: "'e collab \<Rightarrow> string option \<Rightarrow> xml \<Rightarrow> bool" where
  "import_ok c base import_node \<longleftrightarrow>
     (\<forall>d. load_external c (get_attr import_node ''location'') base = Inr d \<and>
          localname (tag d) \<noteq> ''schema'' \<longrightarrow>
          doc_ns d = get_attr import_node ''namespace'')"

definition consistent_imports :: "'e collab \<Rightarrow> string option \<Rightarrow> xml \<Rightarrow> bool" where
  "consistent_imports c base doc \<longleftrightarrow>
     (\<forall>n \<in> set (findall doc (wsdl_tag ''import'')). import_ok c base n)"

definition wsdl_imports :: "'e collab \<Rightarrow> string option \<Rightarrow> xml \<Rightarrow> xml set" where
  "wsdl_imports c base doc =
     {d. \<exists>n \<in> set (findall doc (wsdl_tag ''import'')).
           load_external c (get_attr n ''location'') base = Inr d \<and> localname (tag d) \<noteq> ''schema''}"

inductive_set reachable :: "'e collab \<Rightarrow> string option \<Rightarrow> xml \<Rightarrow> xml set"
  for c :: "'e collab" and base :: "string option" and root :: xml where
  root: "root \<in> reachable c base root"
| step: "d \<in> reachable c base root \<Longrightarrow> d' \<in> wsdl_imports c base d \<Longrightarrow> d' \<in> reachable c base root"

definition closed ::
  "'e collab \<Rightarrow> string option \<Rightarrow> xml set \<Rightarrow> string option set \<Rightarrow> string option set \<Rightarrow> bool" where
  "closed c base D R pending \<longleftrightarrow>
     (\<forall>d \<in> D. doc_ns d \<in> R \<and> doc_ns d \<notin> pending \<longrightarrow>
        (\<forall>d' \<in> wsdl_imports c base d. doc_ns d' \<in> R))"

definition registered :: "'e wsdl \<Rightarrow> string option set" where
  "registered st = fst ` set (definitions_reg st)"

definition registry_ok :: "'e wsdl \<Rightarrow> bool" where
  "registry_ok st \<longleftrightarrow>
     distinct (map target_namespace (objs st)) \<and>
     set (map target_namespace (objs st)) = registered st \<and>
     (\<forall>i \<in> snd ` set (definitions_reg st). i < length (objs st)) \<and>
     valid_imports st"

definition built :: "string option \<Rightarrow> string option set \<Rightarrow> 'e wsdl \<Rightarrow> 'e wsdl \<Rightarrow> bool" where
  "built base U st st' \<longleftrightarrow>
     registry_ok st' \<and> registered st' \<subseteq> U \<and> registered st \<subseteq> registered st' \<and>
     wsdl_location st' = base \<and> length (objs st) \<le> length (objs st')"
subsection \<open>Example documents for the parse phase\<close>

definition ex_import :: "string \<Rightarrow> string \<Rightarrow> xml" where
  "ex_import l ns = Element (wsdl_tag ''import'') [(''location'', l), (''namespace'', ns)] []"

definition ex_wsdl :: "string \<Rightarrow> xml list \<Rightarrow> xml" where
  "ex_wsdl tns nodes = Element (wsdl_tag ''definitions'') [(''targetNamespace'', tns)] nodes"

text \<open>Three documents with import cycles of length 1 (c imports c), 2 (a and b import
  each other) and 3 (a imports b, b imports c, c imports a).\<close>

definition ex_cyclic_files :: "(string option \<times> xml) list" where
  "ex_cyclic_files =
     [(Some ''a.wsdl'', ex_wsdl ''urn:a'' [ex_import ''b.wsdl'' ''urn:b'']),
      (Some ''b.wsdl'', ex_wsdl ''urn:b'' [ex_import ''c.wsdl'' ''urn:c'', ex_import ''a.wsdl'' ''urn:a'']),
      (Some ''c.wsdl'', ex_wsdl ''urn:c'' [ex_import ''a.wsdl'' ''urn:a'', ex_import ''c.wsdl'' ''urn:c''])]"

text \<open>A root whose two import declarations load the same document under namespaces that
  are not its target namespace.\<close>

definition ex_mismatch_files :: "(string option \<times> xml) list" where
  "ex_mismatch_files =
     [(Some ''r.wsdl'', ex_wsdl ''urn:r'' [ex_import ''b.wsdl'' ''urn:x'', ex_import ''b.wsdl'' ''urn:y'']),
      (Some ''b.wsdl'', ex_wsdl ''urn:b'' [])]"

text \<open>Two documents with the target namespace \<^verbatim>\<open>urn:x\<close>: the root imports the first,
  and only the second, imported by \<^verbatim>\<open>b.wsdl\<close>, imports \<^verbatim>\<open>c.wsdl\<close>.\<close>

definition ex_shared_files :: "(string option \<times> xml) list" where
  "ex_shared_files =
     [(Some ''r.wsdl'', ex_wsdl ''urn:r'' [ex_import ''x1.wsdl'' ''urn:x'', ex_import ''b.wsdl'' ''urn:b'']),
      (Some ''x1.wsdl'', ex_wsdl ''urn:x'' []),
      (Some ''b.wsdl'', ex_wsdl ''urn:b'' [ex_import ''x2.wsdl'' ''urn:x'']),
      (Some ''x2.wsdl'', ex_wsdl ''urn:x'' [ex_import ''c.wsdl'' ''urn:c'']),
      (Some ''c.wsdl'', ex_wsdl ''urn:c'' [])]"

text \<open>A root that imports a bare schema document and has no \<^verbatim>\<open>wsdl:types\<close>.\<close>

definition ex_xsd :: xml where
  "ex_xsd = Element schema_tag [(''targetNamespace'', ''urn:t'')]
              [Element ''{http://www.w3.org/2001/XMLSchema}element'' [(''name'', ''Price'')] []]"

definition ex_schema_import_files :: "(string option \<times> xml) list" where
  "ex_schema_import_files =
     [(Some ''r.wsdl'', ex_wsdl ''urn:r'' [ex_import ''types.xsd'' ''urn:t'']),
      (Some ''types.xsd'', ex_xsd)]"

text \<open>What a construction shows of its result: the target namespaces of the Definition
  objects it created, in the order of creation, and the schema and the imports of the
  Definition it returns.\<close>

definition parsed_namespaces :: "(error + 'e wsdl \<times> nat) option \<Rightarrow> string option list option" where
  "parsed_namespaces r =
     (case r of
        Some (Inr (st, w)) \<Rightarrow> Some (map target_namespace (objs st))
      | _ \<Rightarrow> None)"

definition returned_schema ::
  "(error + 'e wsdl \<times> nat) option \<Rightarrow> (schema option \<times> (string option \<times> nat) list) option" where
  "returned_schema r =
     (case r of
        Some (Inr (st, w)) \<Rightarrow> Some (schema (objs st ! w), imports (objs st ! w))
      | _ \<Rightarrow> None)"

definition schema_after_imports :: "(error + 'e wsdl) option \<Rightarrow> nat \<Rightarrow> schema option option" where
  "schema_after_imports r self =
     (case r of
        Some (Inr st) \<Rightarrow> Some (schema (objs st ! self))
      | _ \<Rightarrow> None)"

section \<open>Theorems\<close>

subsection \<open>Facts about the store and about association lists\<close>

lemma new_Definition_simps [simp]:
  "location (new_Definition loc tns) = loc"
  "schema (new_Definition loc tns) = None"
  "port_types (new_Definition loc tns) = []"
  "messages (new_Definition loc tns) = []"
  "bindings (new_Definition loc tns) = []"
  "services (new_Definition loc tns) = []"
  "imports (new_Definition loc tns) = []"
  "resolved_imports (new_Definition loc tns) = False"
  "target_namespace (new_Definition loc tns) = tns"
  by (simp_all add: new_Definition_def)

lemma update_fresh: "k \<notin> fst ` set al \<Longrightarrow> AList.update k v al = al @ [(k, v)]"
  by (induction al) auto

lemma fst_set_update: "fst ` set (AList.update k v al) = insert k (fst ` set al)"
  by (induction al) auto

lemma snd_set_update: "snd ` set (AList.update k v al) \<subseteq> insert v (snd ` set al)"
  by (induction al) auto

lemma map_update_same: "(\<And>x. f (g x) = f x) \<Longrightarrow> map f (xs[i := g (xs ! i)]) = map f xs"
  by (induction xs arbitrary: i) (auto split: nat.splits)

lemma nth_update_in: "j < length xs \<Longrightarrow> (xs[i := v]) ! j = (if i = j then v else xs ! j)"
  by auto

lemma upd_simps [simp]:
  "objs (upd st i g) = (objs st)[i := g (objs st ! i)]"
  "definitions_reg (upd st i g) = definitions_reg st"
  "wsdl_location (upd st i g) = wsdl_location st"
  by (simp_all add: upd_def)

lemma set_container_simps [simp]:
  "location (set_container t v d) = location d"
  "schema (set_container t v d) = schema d"
  "imports (set_container t v d) = imports d"
  "resolved_imports (set_container t v d) = resolved_imports d"
  "target_namespace (set_container t v d) = target_namespace d"
  by (cases t; simp)+

subsection \<open>The qualified lookup\<close>

lemma get_imports_absent:
  "\<forall>d \<in> set ds. map_of (container name (h ! d)) key = None \<Longrightarrow>
   get_imports h ds name key = Inl (IndexError (''No definition '' @ repr (table_attr name) @ '' found''))"
  by (induction ds) auto

lemma get_imports_only:
  "c \<in> set ds \<Longrightarrow> map_of (container name (h ! c)) key = Some v \<Longrightarrow>
   \<forall>d \<in> set ds. d \<noteq> c \<longrightarrow> map_of (container name (h ! d)) key = None \<Longrightarrow>
   get_imports h ds name key = Inr v"
  by (induction ds) (auto split: option.splits)

lemma get_imports_index:
  "i < length ds \<Longrightarrow> map_of (container name (h ! (ds ! i))) key = Some v \<Longrightarrow>
   \<forall>j < i. map_of (container name (h ! (ds ! j))) key = None \<Longrightarrow>
   get_imports h ds name key = Inr v"
proof (induction ds arbitrary: i)
  case Nil
  then show ?case by simp
next
  case (Cons d ds)
  show ?case
  proof (cases i)
    case 0
    with Cons.prems show ?thesis by simp
  next
    case (Suc k)
    from Cons.prems(3) Suc have "map_of (container name (h ! d)) key = None"
      by (metis nth_Cons_0 zero_less_Suc)
    moreover have "get_imports h ds name key = Inr v"
    proof (rule Cons.IH [of k])
      show "k < length ds" using Cons.prems(1) Suc by simp
      show "map_of (container name (h ! (ds ! k))) key = Some v" using Cons.prems(2) Suc by simp
      show "\<forall>j<k. map_of (container name (h ! (ds ! j))) key = None"
      proof (intro allI impI)
        fix j assume "j < k"
        then have "Suc j < i" using Suc by simp
        with Cons.prems(3) have "map_of (container name (h ! ((d # ds) ! Suc j))) key = None" by blast
        then show "map_of (container name (h ! (ds ! j))) key = None" by simp
      qed
    qed
    ultimately show ?thesis by simp
  qed
qed

text \<open>
  C4. The lookup returns the entry of the Definition's own table when the key is there
  (so an own entry shadows an imported one under the same key); when it is not, it
  returns the entry of the first Definition, in the order of \<^verbatim>\<open>self.imports\<close>, whose
  table has the key.
\<close>

theorem get_own_then_first_import:
  "(\<forall>v. map_of (container name (h ! self)) key = Some v \<longrightarrow> get h self name key = Inr v) \<and>
   (map_of (container name (h ! self)) key = None \<longrightarrow>
      (\<forall>i v. i < length (imports (h ! self)) \<and>
             map_of (container name (h ! snd (imports (h ! self) ! i))) key = Some v \<and>
             (\<forall>j < i. map_of (container name (h ! snd (imports (h ! self) ! j))) key = None)
             \<longrightarrow> get h self name key = Inr v))"
proof (intro conjI allI impI)
  fix v assume "map_of (container name (h ! self)) key = Some v"
  then show "get h self name key = Inr v" by (simp add: get_def)
next
  fix i v
  assume own: "map_of (container name (h ! self)) key = None"
    and hit: "i < length (imports (h ! self)) \<and>
             map_of (container name (h ! snd (imports (h ! self) ! i))) key = Some v \<and>
             (\<forall>j < i. map_of (container name (h ! snd (imports (h ! self) ! j))) key = None)"
  have "get_imports h (map snd (imports (h ! self))) name key = Inr v"
    using hit by (intro get_imports_index [of i]) auto
  with own show "get h self name key = Inr v" by (simp add: get_def)
qed

theorem get_own_then_first_import_witness:
  "get ex_lookup 0 Messages ''Shared'' = Inr 10 \<and> get ex_lookup 0 Messages ''OnlyC'' = Inr 31"
proof -
  have own: "map_of (container Messages (ex_lookup ! 0)) ''Shared'' = Some 10"
    by (simp add: ex_lookup_def)
  have none: "map_of (container Messages (ex_lookup ! 0)) ''OnlyC'' = None"
    by (simp add: ex_lookup_def)
  have hit: "1 < length (imports (ex_lookup ! 0)) \<and>
     map_of (container Messages (ex_lookup ! snd (imports (ex_lookup ! 0) ! 1))) ''OnlyC'' = Some 31 \<and>
     (\<forall>j < 1. map_of (container Messages (ex_lookup ! snd (imports (ex_lookup ! 0) ! j))) ''OnlyC'' = None)"
    by (simp add: ex_lookup_def)
  from get_own_then_first_import [of Messages ex_lookup 0 "''Shared''"] own
  have a: "get ex_lookup 0 Messages ''Shared'' = Inr 10" by blast
  from get_own_then_first_import [of Messages ex_lookup 0 "''OnlyC''"] none hit
  have b: "get ex_lookup 0 Messages ''OnlyC'' = Inr 31" by blast
  from a b show ?thesis by simp
qed

text \<open>
  C5, as stated, fails: in \<open>ex_lookup\<close> the Definition 0 imports 1 and 2, the Definition
  1 imports 2, the message \<^verbatim>\<open>OnlyC\<close> is declared by 2 alone, and the lookup on 0 finds
  it, because 2 is also a direct import of 0.
\<close>

theorem get_non_transitive_counterexample:
  "map snd (imports (ex_lookup ! 0)) = [1, 2] \<and>
   map snd (imports (ex_lookup ! 1)) = [2] \<and>
   map_of (messages (ex_lookup ! 0)) ''OnlyC'' = None \<and>
   map_of (messages (ex_lookup ! 1)) ''OnlyC'' = None \<and>
   map_of (messages (ex_lookup ! 2)) ''OnlyC'' = Some 31 \<and>
   get ex_lookup 0 Messages ''OnlyC'' = Inr 31"
  by (simp add: ex_lookup_def get_def)

text \<open>
  C5, amended. Let A import B and B import C, let the key be declared by C and by none
  of A, B and their direct imports other than C, and let C be neither A nor a direct
  import of A. Then the lookup on A raises and the lookup on B returns C's entry: the
  imports of an import are not searched.
\<close>

theorem get_non_transitive:
  assumes "b \<in> snd ` set (imports (h ! a))"
    and "c \<in> snd ` set (imports (h ! b))"
    and "map_of (container name (h ! c)) key = Some v"
    and "\<forall>d \<in> {a, b} \<union> snd ` set (imports (h ! a)) \<union> snd ` set (imports (h ! b)).
           d \<noteq> c \<longrightarrow> map_of (container name (h ! d)) key = None"
    and "a \<noteq> c" and "c \<notin> snd ` set (imports (h ! a))"
  shows "get h a name key =
           Inl (IndexError (''No definition '' @ repr (table_attr name) @ '' found'')) \<and>
         get h b name key = Inr v"
proof
  have own: "map_of (container name (h ! a)) key = None"
    using assms(4,5) by simp
  have "\<forall>d \<in> set (map snd (imports (h ! a))). map_of (container name (h ! d)) key = None"
    using assms(4,6) by auto
  then show "get h a name key =
      Inl (IndexError (''No definition '' @ repr (table_attr name) @ '' found''))"
    using own by (simp add: get_def get_imports_absent)
next
  show "get h b name key = Inr v"
  proof (cases "b = c")
    case True
    with assms(3) show ?thesis by (simp add: get_def)
  next
    case False
    with assms(4) have own: "map_of (container name (h ! b)) key = None" by simp
    have "get_imports h (map snd (imports (h ! b))) name key = Inr v"
    proof (rule get_imports_only [of c])
      show "c \<in> set (map snd (imports (h ! b)))" using assms(2) by simp
      show "map_of (container name (h ! c)) key = Some v" by (rule assms(3))
      show "\<forall>d\<in>set (map snd (imports (h ! b))). d \<noteq> c \<longrightarrow> map_of (container name (h ! d)) key = None"
        using assms(4) by auto
    qed
    with own show ?thesis by (simp add: get_def)
  qed
qed

theorem get_non_transitive_witness:
  "get ex_chain 0 Messages ''OnlyC'' =
     Inl (IndexError (''No definition '' @ repr ''messages'' @ '' found'')) \<and>
   get ex_chain 1 Messages ''OnlyC'' = Inr 31"
proof -
  have 1: "1 \<in> snd ` set (imports (ex_chain ! 0))" by (simp add: ex_chain_def)
  have 2: "2 \<in> snd ` set (imports (ex_chain ! 1))" by (simp add: ex_chain_def)
  have 3: "map_of (container Messages (ex_chain ! 2)) ''OnlyC'' = Some 31"
    by (simp add: ex_chain_def)
  have 4: "\<forall>d \<in> {0, 1} \<union> snd ` set (imports (ex_chain ! 0)) \<union> snd ` set (imports (ex_chain ! 1)).
           d \<noteq> 2 \<longrightarrow> map_of (container Messages (ex_chain ! d)) ''OnlyC'' = None"
    by (simp add: ex_chain_def)
  have 5: "(0::nat) \<noteq> 2" by simp
  have 6: "2 \<notin> snd ` set (imports (ex_chain ! 0))" by (simp add: ex_chain_def)
  from get_non_transitive [OF 1 2 3 4 5 6] show ?thesis by simp
qed

text \<open>
  C9, as stated, fails: the exception of a failed lookup is the same for two different
  keys, so it does not carry the key. Its message is built from the table name alone.
\<close>

theorem get_not_found_counterexample:
  "get ex_chain 2 Messages ''GetPrice'' =
     Inl (IndexError (''No definition '' @ repr ''messages'' @ '' found'')) \<and>
   get ex_chain 2 Messages ''GetQuote'' = get ex_chain 2 Messages ''GetPrice''"
  by (simp add: ex_chain_def get_def)

text \<open>
  C9, amended. When the key is in the table of neither the Definition nor any of its
  direct imports, the lookup raises \<^verbatim>\<open>IndexError\<close> with the message
  \<^verbatim>\<open>No definition '<table name>' found\<close>, which names the table and not the key.
\<close>

theorem get_not_found:
  assumes "map_of (container name (h ! self)) key = None"
    and "\<forall>d \<in> snd ` set (imports (h ! self)). map_of (container name (h ! d)) key = None"
  shows "get h self name key =
           Inl (IndexError (''No definition '' @ repr (table_attr name) @ '' found''))"
proof -
  have "\<forall>d \<in> set (map snd (imports (h ! self))). map_of (container name (h ! d)) key = None"
    using assms(2) by simp
  then show ?thesis using assms(1) by (simp add: get_def get_imports_absent)
qed

theorem get_not_found_witness:
  "get ex_lookup 0 PortTypes ''Quote'' =
     Inl (IndexError (''No definition '' @ repr ''port_types'' @ '' found''))"
proof -
  have 1: "map_of (container PortTypes (ex_lookup ! 0)) ''Quote'' = None"
    by (simp add: ex_lookup_def)
  have 2: "\<forall>d \<in> snd ` set (imports (ex_lookup ! 0)).
             map_of (container PortTypes (ex_lookup ! d)) ''Quote'' = None"
    by (simp add: ex_lookup_def)
  from get_not_found [OF 1 2] show ?thesis by simp
qed

subsection \<open>The binding classifier\<close>

lemma parse_binding_loop_classified:
  "parse_binding_loop c self nodes result = store_all c self (classified c nodes) result"
proof (induction nodes arbitrary: result)
  case Nil
  show ?case by (simp add: classified_def List.map_filter_simps)
next
  case (Cons n ns)
  show ?case
    by (simp add: classified_def classify_def List.map_filter_simps Cons.IH [unfolded classified_def classify_def]
             split: sum.splits)
qed

lemma parse_all_names:
  "parse_all c self kns = Inr bs \<Longrightarrow> \<forall>(name, b) \<in> set bs. entity_name c Bindings b = Inr name"
proof (induction kns arbitrary: bs)
  case Nil
  then show ?case by simp
next
  case (Cons kn kns)
  obtain k n where kn: "kn = (k, n)" by (cases kn)
  from Cons.prems kn obtain b name bs' where "entity_name c Bindings b = Inr name"
    "parse_all c self kns = Inr bs'" "bs = (name, b) # bs'"
    by (auto split: sum.splits)
  with Cons.IH [of bs'] show ?case by simp
qed

lemma store_all_table:
  "store_all c self kns result = Inr tbl \<Longrightarrow>
   \<exists>bs. parse_all c self kns = Inr bs \<and>
        fst ` set tbl = fst ` set result \<union> fst ` set bs \<and>
        set tbl \<subseteq> set result \<union> set bs \<and>
        (distinct (map fst result @ map fst bs) \<longrightarrow> tbl = result @ bs)"
proof (induction kns arbitrary: result)
  case Nil
  then show ?case by simp
next
  case (Cons kn kns)
  obtain k n where kn: "kn = (k, n)" by (cases kn)
  from Cons.prems kn obtain b name where b: "binding_parse c k self n = Inr b"
    and name: "entity_name c Bindings b = Inr name"
    and rest: "store_all c self kns (AList.update name b result) = Inr tbl"
    by (auto simp: store_binding_def split: sum.splits)
  let ?r = "AList.update name b result"
  from Cons.IH [OF rest] obtain bs where bs: "parse_all c self kns = Inr bs"
    and keys: "fst ` set tbl = fst ` set ?r \<union> fst ` set bs"
    and vals: "set tbl \<subseteq> set ?r \<union> set bs"
    and ord: "distinct (map fst ?r @ map fst bs) \<longrightarrow> tbl = ?r @ bs"
    by blast
  have 1: "parse_all c self (kn # kns) = Inr ((name, b) # bs)" using kn b name bs by simp
  have 2: "fst ` set tbl = fst ` set result \<union> fst ` set ((name, b) # bs)"
    using keys by (auto simp: fst_set_update)
  have "set ?r \<subseteq> insert (name, b) (set result)" by (induction result) auto
  with vals have 3: "set tbl \<subseteq> set result \<union> set ((name, b) # bs)" by auto
  have 4: "distinct (map fst result @ map fst ((name, b) # bs)) \<longrightarrow> tbl = result @ (name, b) # bs"
  proof
    assume d: "distinct (map fst result @ map fst ((name, b) # bs))"
    then have fresh: "name \<notin> fst ` set result" by auto
    then have r: "?r = result @ [(name, b)]" by (rule update_fresh)
    have "distinct (map fst ?r @ map fst bs)" using d by (simp add: r)
    with ord have "tbl = ?r @ bs" by blast
    then show "tbl = result @ (name, b) # bs" by (simp add: r)
  qed
  from 1 2 3 4 show ?case by blast
qed

text \<open>
  C7. \<^verbatim>\<open>parse_binding\<close> is the parse, in document order, of the binding nodes that some
  classifier matches, each by the first class of the order SOAP 1.1, SOAP 1.2, HTTP GET,
  HTTP POST that matches it: a node no classifier matches contributes neither an entry
  nor an exception. When it returns, every matched node was parsed to a binding with a
  name, the keys of the table are the names of the parsed bindings, every entry is one of
  them under its name, and when their names are distinct the table is the list of those
  bindings under their names.
\<close>

theorem parse_binding_first_match:
  "parse_binding c self doc =
     store_all c self (classified c (findall doc (wsdl_tag ''binding''))) [] \<and>
   (\<forall>tbl. parse_binding c self doc = Inr tbl \<longrightarrow>
      (\<exists>bs. parse_all c self (classified c (findall doc (wsdl_tag ''binding''))) = Inr bs \<and>
            (\<forall>(name, b) \<in> set bs. entity_name c Bindings b = Inr name) \<and>
            fst ` set tbl = fst ` set bs \<and>
            set tbl \<subseteq> set bs \<and>
            (distinct (map fst bs) \<longrightarrow> tbl = bs)))"
proof (intro conjI allI impI)
  show eq: "parse_binding c self doc =
      store_all c self (classified c (findall doc (wsdl_tag ''binding''))) []"
    by (simp add: parse_binding_def parse_binding_loop_classified)
  fix tbl assume "parse_binding c self doc = Inr tbl"
  with eq have "store_all c self (classified c (findall doc (wsdl_tag ''binding''))) [] = Inr tbl"
    by simp
  from store_all_table [OF this] obtain bs where
    bs: "parse_all c self (classified c (findall doc (wsdl_tag ''binding''))) = Inr bs"
    and rest: "fst ` set tbl = fst ` set bs" "set tbl \<subseteq> set bs" "distinct (map fst bs) \<longrightarrow> tbl = bs"
    by auto
  from parse_all_names [OF bs] bs rest
  show "\<exists>bs. parse_all c self (classified c (findall doc (wsdl_tag ''binding''))) = Inr bs \<and>
            (\<forall>(name, b) \<in> set bs. entity_name c Bindings b = Inr name) \<and>
            fst ` set tbl = fst ` set bs \<and>
            set tbl \<subseteq> set bs \<and>
            (distinct (map fst bs) \<longrightarrow> tbl = bs)"
    by blast
qed

lemma ex_binding_doc_classified:
  "classified (ex_collab [] []) (findall ex_binding_doc (wsdl_tag ''binding'')) =
     [(Soap11Binding, Element (wsdl_tag ''binding'') [(''name'', ''Both'')]
          [Element (binding_marker Soap12Binding) [] [], Element (binding_marker Soap11Binding) [] []]),
      (HttpPostBinding, Element (wsdl_tag ''binding'') [(''name'', ''Post'')]
          [Element (binding_marker HttpPostBinding) [] []])]"
  by (simp add: ex_binding_doc_def classified_def classify_def findall_def ex_collab_def
        List.map_filter_simps wsdl_tag_def wsdl_ns_def)

theorem parse_binding_first_match_witness:
  "parse_binding (ex_collab [] []) (new_Definition None (Some ''urn:a'')) ex_binding_doc =
     Inr [(''Both'', (''Soap11Binding'', ''Both'')), (''Post'', (''HttpPostBinding'', ''Post''))]"
proof -
  have "store_all (ex_collab [] []) (new_Definition None (Some ''urn:a''))
          (classified (ex_collab [] []) (findall ex_binding_doc (wsdl_tag ''binding''))) [] =
        Inr [(''Both'', (''Soap11Binding'', ''Both'')), (''Post'', (''HttpPostBinding'', ''Post''))]"
    unfolding ex_binding_doc_classified
    by (simp add: store_binding_def ex_collab_def ex_named_def get_attr_def)
  with parse_binding_first_match [of "ex_collab [] []" "new_Definition None (Some ''urn:a'')" ex_binding_doc]
  show ?thesis by simp
qed

subsection \<open>Schema stitching\<close>

lemma map_of_update: "map_of (AList.update k v al) = (map_of al)(k \<mapsto> v)"
  by (rule AList.update_conv')

lemma schema_ns_loop_map_of:
  "map_of (schema_ns_loop i nodes m) ns =
     (case token_from i nodes ns of Some t \<Rightarrow> Some t | None \<Rightarrow> map_of m ns)"
proof (induction nodes arbitrary: i m)
  case Nil
  show ?case by simp
next
  case (Cons n nodes)
  show ?case
    by (simp add: Cons.IH map_of_update fragment_ns_def split: option.splits)
qed

lemma schema_ns_token_of: "map_of (schema_ns_loop 0 nodes []) ns = token_of nodes ns"
  by (simp add: schema_ns_loop_map_of token_of_def split: option.splits)

lemma token_from_None: "token_from i nodes ns = None \<longleftrightarrow> ns \<notin> fragment_ns ` set nodes"
proof (induction nodes arbitrary: i)
  case Nil
  show ?case by simp
next
  case (Cons n nodes)
  have ih: "token_from (Suc i) nodes ns = None \<longleftrightarrow> ns \<notin> fragment_ns ` set nodes"
    by (rule Cons.IH)
  show ?case
  proof (cases "token_from (Suc i) nodes ns")
    case None
    with ih show ?thesis by auto
  next
    case (Some t)
    with ih show ?thesis by auto
  qed
qed

lemma token_of_None: "token_of nodes ns = None \<longleftrightarrow> ns \<notin> fragment_ns ` set nodes"
  by (simp add: token_of_def token_from_None)

lemma token_from_Some:
  "token_from i nodes ns = Some t \<Longrightarrow>
   \<exists>j < length nodes. fragment_ns (nodes ! j) = ns \<and> t = int_name (i + j)"
proof (induction nodes arbitrary: i)
  case Nil
  then show ?case by simp
next
  case (Cons n nodes)
  show ?case
  proof (cases "token_from (Suc i) nodes ns")
    case None
    with Cons.prems have "fragment_ns n = ns" "t = int_name i" by (simp_all split: if_splits)
    then have "fragment_ns ((n # nodes) ! 0) = ns \<and> t = int_name (i + 0)" by simp
    then show ?thesis by blast
  next
    case (Some t')
    with Cons.prems have "t' = t" by simp
    with Some Cons.IH [of "Suc i"] obtain j where
      "j < length nodes" "fragment_ns (nodes ! j) = ns" "t = int_name (Suc i + j)" by blast
    then have "Suc j < length (n # nodes) \<and> fragment_ns ((n # nodes) ! Suc j) = ns \<and>
               t = int_name (i + Suc j)" by simp
    then show ?thesis by blast
  qed
qed

lemma token_of_Some:
  "token_of nodes ns = Some t \<Longrightarrow> \<exists>j < length nodes. fragment_ns (nodes ! j) = ns \<and> t = int_name j"
  using token_from_Some [of 0 nodes ns t] by (simp add: token_of_def)

lemma own_import_eq: "own_import i n = fragment_import i n"
  by (simp add: own_import_def fragment_import_def set_attr_def fragment_ns_def Let_def
           split: option.splits)

lemma copy_imports_ok:
  assumes "\<forall>ns. map_of sns ns = token_of nodes ns"
    and "\<forall>d \<in> set ds. lacks_location d \<longrightarrow> token_of nodes (get_attr d ''namespace'') \<noteq> None"
  shows "copy_imports sns ds acc = Inr (acc @ map (rewritten nodes) ds)"
  using assms(2)
proof (induction ds arbitrary: acc)
  case Nil
  show ?case by simp
next
  case (Cons d ds)
  then have ih: "\<And>acc. copy_imports sns ds acc = Inr (acc @ map (rewritten nodes) ds)" by simp
  show ?case
  proof (cases "lacks_location d")
    case True
    with Cons.prems obtain t where t: "token_of nodes (get_attr d ''namespace'') = Some t" by auto
    with True assms(1) show ?thesis
      by (auto simp: ih rewritten_def lacks_location_def Let_def)
  next
    case False
    then show ?thesis
      by (auto simp: ih rewritten_def lacks_location_def Let_def)
  qed
qed

lemma copy_imports_fail:
  assumes "\<forall>ns. map_of sns ns = token_of nodes ns"
    and "\<exists>d \<in> set ds. lacks_location d \<and> token_of nodes (get_attr d ''namespace'') = None"
  shows "\<exists>ns. copy_imports sns ds acc = Inl (KeyError ns) \<and> token_of nodes ns = None"
  using assms(2)
proof (induction ds arbitrary: acc)
  case Nil
  then show ?case by simp
next
  case (Cons d ds)
  show ?case
  proof (cases "lacks_location d")
    case True
    show ?thesis
    proof (cases "token_of nodes (get_attr d ''namespace'')")
      case None
      with True assms(1) show ?thesis by (auto simp: lacks_location_def Let_def)
    next
      case (Some t)
      with Cons.prems have "\<exists>d \<in> set ds. lacks_location d \<and> token_of nodes (get_attr d ''namespace'') = None"
        by auto
      from Cons.IH [OF this] Some True assms(1) show ?thesis
        by (auto simp: lacks_location_def Let_def)
    qed
  next
    case False
    with Cons.prems have "\<exists>d \<in> set ds. lacks_location d \<and> token_of nodes (get_attr d ''namespace'') = None"
      by auto
    from Cons.IH [OF this] False show ?thesis
      by (auto simp: lacks_location_def Let_def)
  qed
qed

lemma copy_imports_cases:
  assumes "\<forall>ns. map_of sns ns = token_of nodes ns"
  shows "copy_imports sns ds acc = Inr (acc @ map (rewritten nodes) ds) \<or>
         (\<exists>ns. copy_imports sns ds acc = Inl (KeyError ns) \<and> token_of nodes ns = None)"
proof (cases "\<exists>d \<in> set ds. lacks_location d \<and> token_of nodes (get_attr d ''namespace'') = None")
  case True
  from copy_imports_fail [OF assms True] show ?thesis by blast
next
  case False
  then have "\<forall>d \<in> set ds. lacks_location d \<longrightarrow> token_of nodes (get_attr d ''namespace'') \<noteq> None"
    by simp
  from copy_imports_ok [OF assms this] show ?thesis by blast
qed

lemma container_loop_ok:
  assumes "\<forall>ns. map_of sns ns = token_of nodes ns"
    and "\<forall>n \<in> set rest. \<forall>d \<in> set (findall n import_tag).
           lacks_location d \<longrightarrow> token_of nodes (get_attr d ''namespace'') \<noteq> None"
  shows "container_loop sns i rest acc = Inr (acc @ stitched_from nodes i rest)"
  using assms(2)
proof (induction rest arbitrary: i acc)
  case Nil
  show ?case by simp
next
  case (Cons n rest)
  have "copy_imports sns (findall n import_tag) (acc @ [own_import i n]) =
          Inr ((acc @ [own_import i n]) @ map (rewritten nodes) (findall n import_tag))"
    using Cons.prems by (intro copy_imports_ok [OF assms(1)]) simp
  moreover have "\<And>acc. container_loop sns (Suc i) rest acc = Inr (acc @ stitched_from nodes (Suc i) rest)"
    using Cons.prems by (intro Cons.IH) simp
  ultimately show ?case by (simp add: own_import_eq)
qed

lemma container_loop_fail:
  assumes "\<forall>ns. map_of sns ns = token_of nodes ns"
    and "\<exists>n \<in> set rest. \<exists>d \<in> set (findall n import_tag).
           lacks_location d \<and> token_of nodes (get_attr d ''namespace'') = None"
  shows "\<exists>ns. container_loop sns i rest acc = Inl (KeyError ns) \<and> token_of nodes ns = None"
  using assms(2)
proof (induction rest arbitrary: i acc)
  case Nil
  then show ?case by simp
next
  case (Cons n rest)
  from copy_imports_cases [OF assms(1), of "findall n import_tag" "acc @ [own_import i n]"]
  show ?case
  proof
    assume ok: "copy_imports sns (findall n import_tag) (acc @ [own_import i n]) =
                  Inr ((acc @ [own_import i n]) @ map (rewritten nodes) (findall n import_tag))"
    have "\<not> (\<exists>d \<in> set (findall n import_tag).
              lacks_location d \<and> token_of nodes (get_attr d ''namespace'') = None)"
    proof
      assume "\<exists>d \<in> set (findall n import_tag).
                lacks_location d \<and> token_of nodes (get_attr d ''namespace'') = None"
      from copy_imports_fail [OF assms(1) this, of "acc @ [own_import i n]"] ok
      show False by auto
    qed
    with Cons.prems have "\<exists>n \<in> set rest. \<exists>d \<in> set (findall n import_tag).
           lacks_location d \<and> token_of nodes (get_attr d ''namespace'') = None"
      by auto
    from Cons.IH [OF this] ok show ?thesis by simp
  next
    assume "\<exists>ns. copy_imports sns (findall n import_tag) (acc @ [own_import i n]) = Inl (KeyError ns) \<and>
                 token_of nodes ns = None"
    then show ?thesis by auto
  qed
qed

lemma parse_types_many:
  assumes "reparse_all c loc (find_schema_nodes c doc) = Inr nodes" and "2 \<le> length nodes"
  shows "parse_types c loc doc =
           (case container_loop (schema_ns_loop 0 nodes []) 0 nodes [] of
              Inl e \<Rightarrow> Inl e
            | Inr cs \<Rightarrow>
                (case new_Schema c (Element schema_tag [] cs) loc of
                   Inl e \<Rightarrow> Inl e
                 | Inr s \<Rightarrow> Inr (Some s)))"
proof -
  have "find_schema_nodes c doc \<noteq> []"
    using assms by (cases "find_schema_nodes c doc") auto
  with assms show ?thesis by (simp add: parse_types_def Let_def)
qed

text \<open>
  C8. With no schema node under \<^verbatim>\<open>wsdl:types\<close>, \<^verbatim>\<open>parse_types\<close> returns \<^verbatim>\<open>None\<close>. With
  one, it calls the schema constructor on that fragment (as parsed back from its
  serialisation), with no container: it returns the schema of the fragment, or raises
  what the constructor raises. With two or more fragments in which every import
  directive without a schema location names the target namespace of a fragment, it calls
  the constructor on a container whose children are, fragment by fragment, the import of
  the fragment's token followed by the fragment's own import directives: those without a
  location rewritten to the token \<^verbatim>\<open>intschema:xsd<j>\<close> of a fragment \<open>j\<close> with the target
  namespace they name, those with a location unchanged; it returns the schema of that
  container, or raises what the constructor raises. An exception of the parser that reads
  the fragments back is raised as it is. The import directives of a fragment are what
  the code reads as such: its children with the tag \<^verbatim>\<open>import\<close> of the 2001 XML Schema
  namespace.
\<close>

theorem parse_types_by_count:
  "(find_schema_nodes c doc = [] \<longrightarrow> parse_types c loc doc = Inr None) \<and>
   (\<forall>e. find_schema_nodes c doc \<noteq> [] \<and> reparse_all c loc (find_schema_nodes c doc) = Inl e \<longrightarrow>
      parse_types c loc doc = Inl e) \<and>
   (\<forall>fragment. reparse_all c loc (find_schema_nodes c doc) = Inr [fragment] \<longrightarrow>
      parse_types c loc doc =
        (case schema_error c fragment loc of
           Some e \<Rightarrow> Inl e
         | None \<Rightarrow> Inr (Some (Schema (Some fragment) loc)))) \<and>
   (\<forall>fragments.
      reparse_all c loc (find_schema_nodes c doc) = Inr fragments \<and> 2 \<le> length fragments \<and>
      (\<forall>fragment \<in> set fragments. \<forall>d \<in> set (findall fragment import_tag).
          lacks_location d \<longrightarrow> get_attr d ''namespace'' \<in> fragment_ns ` set fragments) \<longrightarrow>
      parse_types c loc doc =
        (case schema_error c (Element schema_tag [] (stitched fragments)) loc of
           Some e \<Rightarrow> Inl e
         | None \<Rightarrow> Inr (Some (Schema (Some (Element schema_tag [] (stitched fragments))) loc))) \<and>
      (\<forall>fragment \<in> set fragments. \<forall>d \<in> set (findall fragment import_tag).
          (\<not> lacks_location d \<longrightarrow> rewritten fragments d = d) \<and>
          (lacks_location d \<longrightarrow>
             (\<exists>j < length fragments.
                  fragment_ns (fragments ! j) = get_attr d ''namespace'' \<and>
                  rewritten fragments d = set_attr d ''schemaLocation'' (int_name j)))))"
proof (intro conjI allI impI ballI)
  assume "find_schema_nodes c doc = []"
  then show "parse_types c loc doc = Inr None" by (simp add: parse_types_def)
next
  fix e
  assume "find_schema_nodes c doc \<noteq> [] \<and> reparse_all c loc (find_schema_nodes c doc) = Inl e"
  then show "parse_types c loc doc = Inl e" by (simp add: parse_types_def Let_def)
next
  fix fragment
  assume r: "reparse_all c loc (find_schema_nodes c doc) = Inr [fragment]"
  then have "find_schema_nodes c doc \<noteq> []" by (cases "find_schema_nodes c doc") auto
  with r show "parse_types c loc doc =
        (case schema_error c fragment loc of
           Some e \<Rightarrow> Inl e
         | None \<Rightarrow> Inr (Some (Schema (Some fragment) loc)))"
    by (simp add: parse_types_def Let_def new_Schema_def split: option.splits)
next
  fix fragments
  assume a: "reparse_all c loc (find_schema_nodes c doc) = Inr fragments \<and> 2 \<le> length fragments \<and>
      (\<forall>fragment \<in> set fragments. \<forall>d \<in> set (findall fragment import_tag).
          lacks_location d \<longrightarrow> get_attr d ''namespace'' \<in> fragment_ns ` set fragments)"
  then have ok: "\<forall>n \<in> set fragments. \<forall>d \<in> set (findall n import_tag).
           lacks_location d \<longrightarrow> token_of fragments (get_attr d ''namespace'') \<noteq> None"
    by (simp add: token_of_None)
  have "container_loop (schema_ns_loop 0 fragments []) 0 fragments [] =
          Inr ([] @ stitched_from fragments 0 fragments)"
    by (rule container_loop_ok [OF _ ok]) (simp add: schema_ns_token_of)
  with a show "parse_types c loc doc =
        (case schema_error c (Element schema_tag [] (stitched fragments)) loc of
           Some e \<Rightarrow> Inl e
         | None \<Rightarrow> Inr (Some (Schema (Some (Element schema_tag [] (stitched fragments))) loc)))"
    by (simp add: parse_types_many stitched_def new_Schema_def split: option.splits)
  fix fragment d
  assume fd: "fragment \<in> set fragments" "d \<in> set (findall fragment import_tag)"
  show "\<not> lacks_location d \<Longrightarrow> rewritten fragments d = d"
    by (simp add: rewritten_def)
  show "\<exists>j < length fragments.
          fragment_ns (fragments ! j) = get_attr d ''namespace'' \<and>
          rewritten fragments d = set_attr d ''schemaLocation'' (int_name j)" if l: "lacks_location d"
  proof -
    from ok fd l obtain t where t: "token_of fragments (get_attr d ''namespace'') = Some t"
      by fastforce
    from token_of_Some [OF t] obtain j where
      "j < length fragments" "fragment_ns (fragments ! j) = get_attr d ''namespace''" "t = int_name j"
      by blast
    with l t show ?thesis by (auto simp: rewritten_def)
  qed
qed

lemma int_name_0: "int_name 0 = ''intschema:xsd0''"
  by (simp add: int_name_def dec.simps)

lemma int_name_1: "int_name (Suc 0) = ''intschema:xsd1''"
  by (simp add: int_name_def dec.simps)

lemma ex_find_schema_nodes:
  "fs \<noteq> [] \<Longrightarrow> \<forall>f \<in> set fs. tag f = schema_tag \<Longrightarrow>
   find_schema_nodes (ex_collab files frs) (ex_types_doc fs) = fs"
proof -
  assume ne: "fs \<noteq> []" and tags: "\<forall>f \<in> set fs. tag f = schema_tag"
  have a: "filter (\<lambda>c. tag c = ''{http://www.w3.org/2001/XMLSchema}schema'') fs = fs"
    using tags by (simp add: schema_tag_def)
  have b: "filter (\<lambda>c. tag c = ''{http://www.w3.org/1999/XMLSchema}schema'') fs = []"
    using tags by (auto simp: schema_tag_def filter_empty_conv)
  show ?thesis
    using ne a b
    by (simp add: find_schema_nodes_def ex_types_doc_def find_child_def ex_collab_def
          namespace_sets_def findall_def)
qed

lemma ex_reparse_two:
  "reparse_all (ex_collab [] ex_fragments) loc [ex_fragment_two] = Inr [ex_fragment_two]"
  by (simp add: ex_collab_def ex_fragments_def ex_fragment_two_def get_attr_def)

lemma ex_reparse_one_two:
  "reparse_all (ex_collab [] ex_fragments) loc [ex_fragment_one, ex_fragment_two] =
     Inr [ex_fragment_one, ex_fragment_two]"
  by (simp add: ex_collab_def ex_fragments_def ex_fragment_one_def ex_fragment_two_def get_attr_def)

lemma ex_reparse_two_bad:
  "reparse_all (ex_collab [] ex_fragments) loc [ex_fragment_two, ex_fragment_bad] =
     Inr [ex_fragment_two, ex_fragment_bad]"
  by (simp add: ex_collab_def ex_fragments_def ex_fragment_bad_def ex_fragment_two_def get_attr_def)

lemma ex_stitched:
  "stitched [ex_fragment_one, ex_fragment_two] =
     [Element import_tag [(''schemaLocation'', ''intschema:xsd0''), (''namespace'', ''urn:one'')] [],
      Element import_tag [(''namespace'', ''urn:two''), (''schemaLocation'', ''intschema:xsd1'')] [],
      Element import_tag [(''namespace'', ''urn:ext''), (''schemaLocation'', ''ext.xsd'')] [],
      Element import_tag [(''schemaLocation'', ''intschema:xsd1''), (''namespace'', ''urn:two'')] []]"
  by (simp add: stitched_def fragment_import_def rewritten_def token_of_def fragment_ns_def
        lacks_location_def ex_fragment_one_def ex_fragment_two_def get_attr_def set_attr_def
        findall_def int_name_0 int_name_1 import_tag_def)

lemma ex_reparse_bad:
  "reparse_all (ex_collab [] ex_fragments) loc [ex_fragment_bad] = Inr [ex_fragment_bad]"
  by (simp add: ex_collab_def ex_fragments_def ex_fragment_bad_def get_attr_def)

lemma ex_schema_error:
  "schema_error (ex_collab [] ex_fragments) ex_fragment_two loc = None"
  "schema_error (ex_collab [] ex_fragments) ex_fragment_bad loc = Some (External ''InvalidSchema'')"
  "schema_error (ex_collab [] ex_fragments)
     (Element schema_tag [] (stitched [ex_fragment_one, ex_fragment_two])) loc = None"
  by (simp_all add: ex_stitched)
     (simp_all add: ex_collab_def ex_fragment_two_def ex_fragment_bad_def findall_def get_attr_def
        import_tag_def)

theorem parse_types_by_count_witness:
  "parse_types (ex_collab [] ex_fragments) (Some ''a.wsdl'') (ex_types_doc []) = Inr None \<and>
   parse_types (ex_collab [] ex_fragments) (Some ''a.wsdl'') (ex_types_doc [ex_fragment_two]) =
     Inr (Some (Schema (Some ex_fragment_two) (Some ''a.wsdl''))) \<and>
   parse_types (ex_collab [] ex_fragments) (Some ''a.wsdl'') (ex_types_doc [ex_fragment_bad]) =
     Inl (External ''InvalidSchema'') \<and>
   parse_types (ex_collab [] ex_fragments) (Some ''a.wsdl'')
       (ex_types_doc [ex_fragment_one, ex_fragment_two]) =
     Inr (Some (Schema (Some (Element schema_tag []
       [Element import_tag [(''schemaLocation'', ''intschema:xsd0''), (''namespace'', ''urn:one'')] [],
        Element import_tag [(''namespace'', ''urn:two''), (''schemaLocation'', ''intschema:xsd1'')] [],
        Element import_tag [(''namespace'', ''urn:ext''), (''schemaLocation'', ''ext.xsd'')] [],
        Element import_tag [(''schemaLocation'', ''intschema:xsd1''), (''namespace'', ''urn:two'')] []]))
       (Some ''a.wsdl'')))"
proof -
  let ?c = "ex_collab [] ex_fragments"
  have n0: "find_schema_nodes ?c (ex_types_doc []) = []"
    by (simp add: find_schema_nodes_def ex_types_doc_def find_child_def)
  have n1: "find_schema_nodes ?c (ex_types_doc [ex_fragment_two]) = [ex_fragment_two]"
    by (rule ex_find_schema_nodes) (simp_all add: ex_fragment_two_def)
  have n1b: "find_schema_nodes ?c (ex_types_doc [ex_fragment_bad]) = [ex_fragment_bad]"
    by (rule ex_find_schema_nodes) (simp_all add: ex_fragment_bad_def)
  have n2: "find_schema_nodes ?c (ex_types_doc [ex_fragment_one, ex_fragment_two]) =
              [ex_fragment_one, ex_fragment_two]"
    by (rule ex_find_schema_nodes) (simp_all add: ex_fragment_one_def ex_fragment_two_def)
  have r1: "reparse_all ?c (Some ''a.wsdl'') (find_schema_nodes ?c (ex_types_doc [ex_fragment_two])) =
              Inr [ex_fragment_two]"
    unfolding n1 by (rule ex_reparse_two)
  have r1b: "reparse_all ?c (Some ''a.wsdl'') (find_schema_nodes ?c (ex_types_doc [ex_fragment_bad])) =
              Inr [ex_fragment_bad]"
    unfolding n1b by (rule ex_reparse_bad)
  have r2: "reparse_all ?c (Some ''a.wsdl'')
              (find_schema_nodes ?c (ex_types_doc [ex_fragment_one, ex_fragment_two])) =
              Inr [ex_fragment_one, ex_fragment_two] \<and>
            2 \<le> length [ex_fragment_one, ex_fragment_two] \<and>
            (\<forall>fragment \<in> set [ex_fragment_one, ex_fragment_two].
               \<forall>d \<in> set (findall fragment import_tag).
                 lacks_location d \<longrightarrow>
                 get_attr d ''namespace'' \<in> fragment_ns ` set [ex_fragment_one, ex_fragment_two])"
    unfolding n2 ex_reparse_one_two
    by (auto simp: ex_fragment_one_def ex_fragment_two_def findall_def lacks_location_def
          get_attr_def fragment_ns_def import_tag_def)
  from parse_types_by_count [of ?c "ex_types_doc []" "Some ''a.wsdl''"] n0
  have a: "parse_types ?c (Some ''a.wsdl'') (ex_types_doc []) = Inr None" by blast
  from parse_types_by_count [of ?c "ex_types_doc [ex_fragment_two]" "Some ''a.wsdl''"] r1
  have "parse_types ?c (Some ''a.wsdl'') (ex_types_doc [ex_fragment_two]) =
          (case schema_error ?c ex_fragment_two (Some ''a.wsdl'') of
             Some e \<Rightarrow> Inl e
           | None \<Rightarrow> Inr (Some (Schema (Some ex_fragment_two) (Some ''a.wsdl''))))" by blast
  then have b: "parse_types ?c (Some ''a.wsdl'') (ex_types_doc [ex_fragment_two]) =
             Inr (Some (Schema (Some ex_fragment_two) (Some ''a.wsdl'')))"
    by (simp add: ex_schema_error)
  from parse_types_by_count [of ?c "ex_types_doc [ex_fragment_bad]" "Some ''a.wsdl''"] r1b
  have "parse_types ?c (Some ''a.wsdl'') (ex_types_doc [ex_fragment_bad]) =
          (case schema_error ?c ex_fragment_bad (Some ''a.wsdl'') of
             Some e \<Rightarrow> Inl e
           | None \<Rightarrow> Inr (Some (Schema (Some ex_fragment_bad) (Some ''a.wsdl''))))" by blast
  then have b': "parse_types ?c (Some ''a.wsdl'') (ex_types_doc [ex_fragment_bad]) =
             Inl (External ''InvalidSchema'')"
    by (simp add: ex_schema_error)
  from parse_types_by_count [of ?c "ex_types_doc [ex_fragment_one, ex_fragment_two]" "Some ''a.wsdl''"] r2
  have "parse_types ?c (Some ''a.wsdl'') (ex_types_doc [ex_fragment_one, ex_fragment_two]) =
          (case schema_error ?c (Element schema_tag [] (stitched [ex_fragment_one, ex_fragment_two]))
                  (Some ''a.wsdl'') of
             Some e \<Rightarrow> Inl e
           | None \<Rightarrow> Inr (Some (Schema (Some (Element schema_tag []
                          (stitched [ex_fragment_one, ex_fragment_two]))) (Some ''a.wsdl''))))"
    by blast
  then have "parse_types ?c (Some ''a.wsdl'') (ex_types_doc [ex_fragment_one, ex_fragment_two]) =
          Inr (Some (Schema (Some (Element schema_tag [] (stitched [ex_fragment_one, ex_fragment_two])))
                 (Some ''a.wsdl'')))"
    by (simp add: ex_schema_error)
  with a b b' show ?thesis by (simp add: ex_stitched)
qed

text \<open>
  C10. In the case of two or more fragments, when some fragment has an import directive
  without a schema location whose namespace is the target namespace of no fragment under
  the same \<^verbatim>\<open>wsdl:types\<close> (the dictionary \<^verbatim>\<open>schema_ns\<close> has a key for every fragment, the
  directive's own included), \<^verbatim>\<open>parse_types\<close> raises the \<^verbatim>\<open>KeyError\<close> of the lookup
  \<^verbatim>\<open>schema_ns[namespace]\<close> and returns no schema.
\<close>

theorem parse_types_dangling_import:
  assumes "reparse_all c loc (find_schema_nodes c doc) = Inr fragments"
    and "2 \<le> length fragments"
    and "fragment \<in> set fragments"
    and "d \<in> set (findall fragment import_tag)"
    and "lacks_location d"
    and "get_attr d ''namespace'' \<notin> fragment_ns ` set fragments"
  shows "\<exists>ns. parse_types c loc doc = Inl (KeyError ns) \<and> ns \<notin> fragment_ns ` set fragments"
proof -
  have bad: "\<exists>n \<in> set fragments. \<exists>d \<in> set (findall n import_tag).
           lacks_location d \<and> token_of fragments (get_attr d ''namespace'') = None"
    using assms(3-6) by (auto simp: token_of_None)
  have "\<exists>ns. container_loop (schema_ns_loop 0 fragments []) 0 fragments [] = Inl (KeyError ns) \<and>
             token_of fragments ns = None"
    by (rule container_loop_fail [OF _ bad]) (simp add: schema_ns_token_of)
  then obtain ns where "container_loop (schema_ns_loop 0 fragments []) 0 fragments [] = Inl (KeyError ns)"
    and "ns \<notin> fragment_ns ` set fragments"
    by (auto simp: token_of_None)
  then show ?thesis
    using parse_types_many [OF assms(1,2)] by simp
qed

theorem parse_types_dangling_import_witness:
  "\<exists>ns. parse_types (ex_collab [] ex_fragments) (Some ''a.wsdl'')
           (ex_types_doc [ex_fragment_two, ex_fragment_bad]) = Inl (KeyError ns) \<and>
        ns \<notin> fragment_ns ` set [ex_fragment_two, ex_fragment_bad]"
proof -
  let ?c = "ex_collab [] ex_fragments"
  let ?d = "Element import_tag [(''namespace'', ''urn:missing'')] []"
  have n: "find_schema_nodes ?c (ex_types_doc [ex_fragment_two, ex_fragment_bad]) =
             [ex_fragment_two, ex_fragment_bad]"
    by (rule ex_find_schema_nodes) (simp_all add: ex_fragment_bad_def ex_fragment_two_def)
  have 1: "reparse_all ?c (Some ''a.wsdl'')
             (find_schema_nodes ?c (ex_types_doc [ex_fragment_two, ex_fragment_bad])) =
           Inr [ex_fragment_two, ex_fragment_bad]"
    unfolding n by (rule ex_reparse_two_bad)
  have 2: "2 \<le> length [ex_fragment_two, ex_fragment_bad]" by simp
  have 3: "ex_fragment_bad \<in> set [ex_fragment_two, ex_fragment_bad]" by simp
  have 4: "?d \<in> set (findall ex_fragment_bad import_tag)"
    by (simp add: ex_fragment_bad_def findall_def)
  have 5: "lacks_location ?d" by (simp add: lacks_location_def get_attr_def)
  have 6: "get_attr ?d ''namespace'' \<notin> fragment_ns ` set [ex_fragment_two, ex_fragment_bad]"
    by (simp add: get_attr_def fragment_ns_def ex_fragment_bad_def ex_fragment_two_def)
  from parse_types_dangling_import [OF 1 2 3 4 5 6] show ?thesis .
qed

subsection \<open>The resolve phase\<close>

lemma frame_refl [simp]: "frame st st"
  by (simp add: frame_def)

lemma frame_trans: "frame a b \<Longrightarrow> frame b c \<Longrightarrow> frame a c"
  by (simp add: frame_def)

lemma frame_upd:
  assumes "\<And>d. imports (g d) = imports d" "\<And>d. target_namespace (g d) = target_namespace d"
    "\<And>d. location (g d) = location d" "\<And>d. resolved_imports d \<Longrightarrow> resolved_imports (g d)"
  shows "frame st (upd st i g)"
  using assms by (simp add: frame_def nth_update_in)

lemma frame_valid_imports: "frame st st' \<Longrightarrow> valid_imports st \<Longrightarrow> valid_imports st'"
  by (simp add: frame_def valid_imports_def)

lemma frame_unresolved: "frame st st' \<Longrightarrow> unresolved st' \<subseteq> unresolved st"
  by (auto simp: frame_def unresolved_def)

lemma finite_unresolved [simp]: "finite (unresolved st)"
  by (simp add: unresolved_def)

lemma adopt_schema_frame: "frame st (adopt_schema c st self ds)"
proof (induction ds arbitrary: st)
  case Nil
  show ?case by (simp add: frame_upd)
next
  case (Cons d ds)
  let ?st = "case schema (objs st ! d) of None \<Rightarrow> st
             | Some s \<Rightarrow> if \<not> is_empty c s then upd st self (\<lambda>x. x\<lparr>schema := Some s\<rparr>) else st"
  have "frame st ?st" by (simp add: frame_upd split: option.splits)
  moreover have "frame ?st (adopt_schema c ?st self ds)" by (rule Cons.IH)
  ultimately show ?case by (simp add: frame_trans)
qed

lemma adopt_schema_empty:
  "self < length (objs st) \<Longrightarrow>
   schema (objs (adopt_schema c st self ds) ! self) = Some (Schema None (location (objs st ! self)))"
proof (induction ds arbitrary: st)
  case Nil
  then show ?case by simp
next
  case (Cons d ds)
  let ?st = "case schema (objs st ! d) of None \<Rightarrow> st
             | Some s \<Rightarrow> if \<not> is_empty c s then upd st self (\<lambda>x. x\<lparr>schema := Some s\<rparr>) else st"
  have "self < length (objs ?st)" and "location (objs ?st ! self) = location (objs st ! self)"
    using Cons.prems by (simp_all split: option.splits)
  with Cons.IH [of ?st] show ?case by simp
qed

lemma resolve_table_frame: "resolve_table c t st self es = (st', e) \<Longrightarrow> frame st st'"
proof (induction es arbitrary: st)
  case Nil
  then show ?case by simp
next
  case (Cons a es)
  obtain k x where a: "a = (k, x)" by (cases a)
  show ?case
  proof (cases "entity_resolve c t x st self")
    case (Inl err)
    with Cons.prems a show ?thesis by simp
  next
    case (Inr x')
    let ?st = "upd st self (\<lambda>d. set_container t (AList.update k x' (container t d)) d)"
    have "frame st ?st" by (simp add: frame_upd)
    moreover have "frame ?st st'" using Cons.prems a Inr by (intro Cons.IH) simp
    ultimately show ?thesis by (rule frame_trans)
  qed
qed

lemma resolve_entities_frame: "resolve_entities c st self = (st', e) \<Longrightarrow> frame st st'"
  unfolding resolve_entities_def
  by (auto split: prod.splits option.splits dest!: resolve_table_frame intro: frame_trans)

lemma resolve_flag_set:
  "self < length (objs st) \<Longrightarrow>
   frame (upd st self (\<lambda>d. d\<lparr>resolved_imports := True\<rparr>)) st' \<Longrightarrow> resolved_imports (objs st' ! self)"
  by (simp add: frame_def)

text \<open>Both functions only add to what is resolved, and \<^verbatim>\<open>resolve_imports\<close> leaves the
  flag of its Definition set, whether or not an exception was raised.\<close>

lemma resolve_frame:
  "(resolve_imports f c st self = Some (st', e) \<longrightarrow>
      frame st st' \<and> (self < length (objs st) \<longrightarrow> resolved_imports (objs st' ! self))) \<and>
   (resolve_each f c st ds = Some (st', e) \<longrightarrow> frame st st')"
proof (induction f arbitrary: st st' e self ds)
  case 0
  have "resolve_each 0 c st ds = Some (st', e) \<longrightarrow> frame st st'" for st st' e ds
    by (induction ds arbitrary: st) auto
  then show ?case by simp
next
  case (Suc f)
  have each: "resolve_each f c st ds = Some (st', e) \<Longrightarrow> frame st st'" for st st' e ds
    using Suc.IH by blast
  have imp: "frame st st' \<and> (self < length (objs st) \<longrightarrow> resolved_imports (objs st' ! self))"
    if r: "resolve_imports (Suc f) c st self = Some (st', e)" for st st' e self
  proof (cases "resolved_imports (objs st ! self)")
    case True
    with r show ?thesis by simp
  next
    case False
    let ?st1 = "upd st self (\<lambda>d. d\<lparr>resolved_imports := True\<rparr>)"
    let ?st2 = "if schema (objs ?st1 ! self) = None
                then adopt_schema c ?st1 self (map snd (imports (objs ?st1 ! self))) else ?st1"
    have f1: "frame st ?st1" by (simp add: frame_upd)
    have f12: "frame ?st1 ?st2" by (simp add: adopt_schema_frame)
    from r False obtain st3 e3 where
      r3: "resolve_each f c ?st2 (map snd (imports (objs ?st2 ! self))) = Some (st3, e3)"
      and fin: "(e3 \<noteq> None \<and> st' = st3) \<or> (e3 = None \<and> resolve_entities c st3 self = (st', e))"
      by (auto simp: Let_def split: option.splits prod.splits simp del: upd_simps)
    have f23: "frame ?st2 st3" using r3 by (rule each)
    have f3: "frame st3 st'"
      using fin by (auto dest: resolve_entities_frame)
    have f1': "frame ?st1 st'" using f12 f23 f3 by (blast intro: frame_trans)
    then have "frame st st'" using f1 by (blast intro: frame_trans)
    moreover have "self < length (objs st) \<longrightarrow> resolved_imports (objs st' ! self)"
      using f1' by (auto intro: resolve_flag_set)
    ultimately show ?thesis by simp
  qed
  have "resolve_each (Suc f) c st ds = Some (st', e) \<longrightarrow> frame st st'" for st st' e ds
  proof (induction ds arbitrary: st)
    case Nil
    show ?case by simp
  next
    case (Cons d ds)
    show ?case
    proof
      assume a: "resolve_each (Suc f) c st (d # ds) = Some (st', e)"
      then obtain st1 e1 where r1: "resolve_imports (Suc f) c st d = Some (st1, e1)"
        and fin: "(e1 \<noteq> None \<and> st' = st1) \<or> (e1 = None \<and> resolve_each (Suc f) c st1 ds = Some (st', e))"
        by (auto split: option.splits prod.splits)
      have "frame st st1" using imp [OF r1] by simp
      moreover have "frame st1 st'" using fin Cons.IH by auto
      ultimately show "frame st st'" by (rule frame_trans)
    qed
  qed
  with imp show ?case by blast
qed

lemma unresolved_flag_set:
  assumes "self < length (objs st)" "\<not> resolved_imports (objs st ! self)"
    and "frame (upd st self (\<lambda>d. d\<lparr>resolved_imports := True\<rparr>)) st'"
  shows "card (unresolved st') < card (unresolved st)"
proof (rule psubset_card_mono)
  show "finite (unresolved st)" by simp
  have in_old: "self \<in> unresolved st" using assms(1,2) by (simp add: unresolved_def)
  have not_new: "self \<notin> unresolved st'"
    using resolve_flag_set [OF assms(1,3)] by (simp add: unresolved_def)
  have "frame st (upd st self (\<lambda>d. d\<lparr>resolved_imports := True\<rparr>))" by (simp add: frame_upd)
  then have "frame st st'" using assms(3) by (rule frame_trans)
  then have "unresolved st' \<subseteq> unresolved st" by (rule frame_unresolved)
  with in_old not_new show "unresolved st' \<subset> unresolved st" by blast
qed

text \<open>The resolve phase returns: every call that does work sets a flag that was not set,
  so fuel above the number of unresolved Definitions is enough.\<close>

lemma resolve_terminates:
  "valid_imports st \<Longrightarrow> card (unresolved st) < f \<Longrightarrow>
   (self < length (objs st) \<longrightarrow> (\<exists>st' e. resolve_imports f c st self = Some (st', e))) \<and>
   (set ds \<subseteq> {..<length (objs st)} \<longrightarrow> (\<exists>st' e. resolve_each f c st ds = Some (st', e)))"
proof (induction f arbitrary: st self ds)
  case 0
  then show ?case by simp
next
  case (Suc f)
  have imp: "\<exists>st' e. resolve_imports (Suc f) c st self = Some (st', e)"
    if v: "valid_imports st" and cd: "card (unresolved st) < Suc f" and l: "self < length (objs st)"
    for st :: "'a wsdl" and self
  proof (cases "resolved_imports (objs st ! self)")
    case True
    then show ?thesis by simp
  next
    case False
    let ?st1 = "upd st self (\<lambda>d. d\<lparr>resolved_imports := True\<rparr>)"
    let ?st2 = "if schema (objs ?st1 ! self) = None
                then adopt_schema c ?st1 self (map snd (imports (objs ?st1 ! self))) else ?st1"
    have f1: "frame st ?st1" by (simp add: frame_upd)
    have f12: "frame ?st1 ?st2" by (simp add: adopt_schema_frame)
    have f2: "frame st ?st2" using f1 f12 by (rule frame_trans)
    have v2: "valid_imports ?st2" using f2 v by (rule frame_valid_imports)
    have "card (unresolved ?st2) < card (unresolved st)"
      using l False f12 by (rule unresolved_flag_set)
    with cd have c2: "card (unresolved ?st2) < f" by simp
    have len: "length (objs ?st2) = length (objs st)" using f2 by (simp add: frame_def)
    have "imports (objs ?st2 ! self) = imports (objs st ! self)"
      using f2 l by (simp add: frame_def)
    then have "set (map snd (imports (objs ?st2 ! self))) \<subseteq> {..<length (objs ?st2)}"
      using v l len by (auto simp: valid_imports_def)
    with Suc.IH [OF v2 c2] obtain st3 e3 where
      "resolve_each f c ?st2 (map snd (imports (objs ?st2 ! self))) = Some (st3, e3)"
      by blast
    with False show ?thesis
      by (cases e3; cases "resolve_entities c st3 self") (simp_all add: Let_def del: upd_simps)
  qed
  have each: "valid_imports st \<Longrightarrow> card (unresolved st) < Suc f \<Longrightarrow>
      set ds \<subseteq> {..<length (objs st)} \<Longrightarrow> \<exists>st' e. resolve_each (Suc f) c st ds = Some (st', e)"
    for st :: "'a wsdl" and ds
  proof (induction ds arbitrary: st)
    case Nil
    show ?case by simp
  next
    case (Cons d ds)
    then have "d < length (objs st)" by simp
    from imp [OF Cons.prems(1,2) this] obtain st1 e1 where
      r1: "resolve_imports (Suc f) c st d = Some (st1, e1)" by blast
    then have fr: "frame st st1" using resolve_frame [of "Suc f" c st d st1 e1] by simp
    show ?case
    proof (cases e1)
      case (Some err)
      with r1 show ?thesis by simp
    next
      case None
      have "valid_imports st1" using fr Cons.prems(1) by (rule frame_valid_imports)
      moreover have "card (unresolved st1) < Suc f"
        using frame_unresolved [OF fr] Cons.prems(2) card_mono [of "unresolved st" "unresolved st1"]
        by simp
      moreover have "set ds \<subseteq> {..<length (objs st1)}"
        using Cons.prems(3) fr by (simp add: frame_def)
      ultimately obtain st' e where "resolve_each (Suc f) c st1 ds = Some (st', e)"
        using Cons.IH by blast
      with r1 None show ?thesis by simp
    qed
  qed
  from imp [OF Suc.prems] each [OF Suc.prems] show ?case by blast
qed

text \<open>
  C3. \<^verbatim>\<open>resolve_imports\<close> tests the flag first and returns at once, changing nothing, when
  it is set. When it is not set, the flag is set in the state the calls on the imports
  start from. A call that returns (with or without an exception) leaves the flag of its
  Definition set and no flag cleared, so every later call on that Definition returns at
  once and leaves the whole state, with the Definition's schema and its four tables, as
  the first call left it.
\<close>

theorem resolve_imports_idempotent:
  "(resolved_imports (objs st ! self) \<longrightarrow> resolve_imports (Suc f) c st self = Some (st, None)) \<and>
   (\<not> resolved_imports (objs st ! self) \<and> self < length (objs st) \<longrightarrow>
      (\<exists>st2. resolved_imports (objs st2 ! self) \<and>
             resolve_imports (Suc f) c st self =
               (case resolve_each f c st2 (map snd (imports (objs st2 ! self))) of
                  None \<Rightarrow> None
                | Some (st3, Some e) \<Rightarrow> Some (st3, Some e)
                | Some (st3, None) \<Rightarrow> Some (resolve_entities c st3 self)))) \<and>
   (\<forall>st' e. resolve_imports f c st self = Some (st', e) \<and> self < length (objs st) \<longrightarrow>
      resolved_imports (objs st' ! self) \<and>
      (\<forall>j < length (objs st). resolved_imports (objs st ! j) \<longrightarrow> resolved_imports (objs st' ! j)) \<and>
      (\<forall>g. resolve_imports (Suc g) c st' self = Some (st', None)))"
proof (intro conjI allI impI)
  assume "resolved_imports (objs st ! self)"
  then show "resolve_imports (Suc f) c st self = Some (st, None)" by simp
next
  assume a: "\<not> resolved_imports (objs st ! self) \<and> self < length (objs st)"
  let ?st1 = "upd st self (\<lambda>d. d\<lparr>resolved_imports := True\<rparr>)"
  let ?st2 = "if schema (objs ?st1 ! self) = None
              then adopt_schema c ?st1 self (map snd (imports (objs ?st1 ! self))) else ?st1"
  have "frame ?st1 ?st2" by (simp add: adopt_schema_frame)
  with a have "resolved_imports (objs ?st2 ! self)" by (intro resolve_flag_set) simp_all
  moreover have "resolve_imports (Suc f) c st self =
               (case resolve_each f c ?st2 (map snd (imports (objs ?st2 ! self))) of
                  None \<Rightarrow> None
                | Some (st3, Some e) \<Rightarrow> Some (st3, Some e)
                | Some (st3, None) \<Rightarrow> Some (resolve_entities c st3 self))"
    using a by (simp add: Let_def del: upd_simps)
  ultimately show "\<exists>st2. resolved_imports (objs st2 ! self) \<and>
             resolve_imports (Suc f) c st self =
               (case resolve_each f c st2 (map snd (imports (objs st2 ! self))) of
                  None \<Rightarrow> None
                | Some (st3, Some e) \<Rightarrow> Some (st3, Some e)
                | Some (st3, None) \<Rightarrow> Some (resolve_entities c st3 self))"
    by blast
next
  fix st' e
  assume a: "resolve_imports f c st self = Some (st', e) \<and> self < length (objs st)"
  with resolve_frame [of f c st self st' e]
  have fr: "frame st st'" and flag: "resolved_imports (objs st' ! self)" by simp_all
  show "resolved_imports (objs st' ! self)" by (rule flag)
  show "resolve_imports (Suc g) c st' self = Some (st', None)" for g
    using flag by simp
  show "resolved_imports (objs st' ! j)"
    if "j < length (objs st)" "resolved_imports (objs st ! j)" for j
    using fr that by (simp add: frame_def)
qed

lemma ex_cycle_resolve:
  "resolve_imports (Suc (Suc (Suc 0))) (ex_collab [] []) ex_cycle 0 =
     Some (\<lparr>wsdl_location = Some ''a.wsdl'',
            definitions_reg = [(Some ''urn:a'', 0), (Some ''urn:b'', 1)],
            objs =
              [(new_Definition (Some ''a.wsdl'') (Some ''urn:a''))
                 \<lparr>schema := Some (Schema None (Some ''a.wsdl'')),
                  messages := [(''Ask'', (''messages (resolved)'', ''Ask''))],
                  imports := [(Some ''urn:b'', 1)], resolved_imports := True\<rparr>,
               (new_Definition (Some ''b.wsdl'') (Some ''urn:b''))
                 \<lparr>schema := Some ex_schema, imports := [(Some ''urn:a'', 0)],
                  resolved_imports := True\<rparr>]\<rparr>, None)"
  by (simp add: ex_cycle_def ex_collab_def new_Definition_def resolve_entities_def upd_def
        ex_schema_def Let_def)

theorem resolve_imports_idempotent_witness:
  "\<exists>st'. resolve_imports (Suc (Suc (Suc 0))) (ex_collab [] []) ex_cycle 0 = Some (st', None) \<and>
         resolved_imports (objs st' ! 0) \<and>
         resolved_imports (objs st' ! 1) \<and>
         messages (objs st' ! 0) = [(''Ask'', (''messages (resolved)'', ''Ask''))] \<and>
         resolve_imports (Suc 0) (ex_collab [] []) st' 0 = Some (st', None)"
proof -
  obtain st' where r: "resolve_imports (Suc (Suc (Suc 0))) (ex_collab [] []) ex_cycle 0 = Some (st', None)"
    and v: "resolved_imports (objs st' ! 1)"
           "messages (objs st' ! 0) = [(''Ask'', (''messages (resolved)'', ''Ask''))]"
    using ex_cycle_resolve by simp
  have l: "0 < length (objs ex_cycle)" by (simp add: ex_cycle_def)
  from resolve_imports_idempotent [of st' 0 0 "ex_collab [] []"]
    resolve_imports_idempotent [of ex_cycle 0 "Suc (Suc (Suc 0))" "ex_collab [] []"] r l
  have "resolved_imports (objs st' ! 0) \<and>
        resolve_imports (Suc 0) (ex_collab [] []) st' 0 = Some (st', None)"
    by blast
  with r v show ?thesis by blast
qed

text \<open>
  C1 fails on the code. In \<open>ex_cycle\<close> the first Definition has no schema and imports
  the second, whose schema is not empty; after \<^verbatim>\<open>resolve_imports\<close> the first Definition
  has the empty schema of its own location, not the imported one: the \<^verbatim>\<open>else\<close> branch of
  the \<^verbatim>\<open>for\<close> loop runs after every loop that ends without \<^verbatim>\<open>break\<close>, and the loop has
  none.
\<close>

theorem resolve_imports_drops_imported_schema:
  "schema (objs ex_cycle ! 0) = None \<and>
   map snd (imports (objs ex_cycle ! 0)) = [1] \<and>
   schema (objs ex_cycle ! 1) = Some ex_schema \<and>
   \<not> is_empty (ex_collab [] []) ex_schema \<and>
   (\<exists>st'. resolve_imports (Suc (Suc (Suc 0))) (ex_collab [] []) ex_cycle 0 = Some (st', None) \<and>
          schema (objs st' ! 0) = Some (Schema None (Some ''a.wsdl'')))"
proof -
  have "schema (objs ex_cycle ! 0) = None \<and>
        map snd (imports (objs ex_cycle ! 0)) = [1] \<and>
        schema (objs ex_cycle ! 1) = Some ex_schema \<and>
        \<not> is_empty (ex_collab [] []) ex_schema"
    by (simp add: ex_cycle_def ex_collab_def ex_schema_def)
  moreover have "\<exists>st'. resolve_imports (Suc (Suc (Suc 0))) (ex_collab [] []) ex_cycle 0 = Some (st', None) \<and>
          schema (objs st' ! 0) = Some (Schema None (Some ''a.wsdl''))"
    using ex_cycle_resolve by simp
  ultimately show ?thesis by blast
qed

subsection \<open>The parse phase\<close>

lemma registered_None: "map_of (definitions_reg st) ns = None \<longleftrightarrow> ns \<notin> registered st"
  by (simp add: registered_def map_of_eq_None_iff)

lemma frame_upd_trans:
  assumes "frame st st1"
    and "\<And>d. imports (g d) = imports d" "\<And>d. target_namespace (g d) = target_namespace d"
    "\<And>d. location (g d) = location d" "\<And>d. resolved_imports d \<Longrightarrow> resolved_imports (g d)"
  shows "frame st (upd st1 i g)"
  using assms(1) frame_upd [of g st1 i, OF assms(2-5)] by (rule frame_trans)

lemma parse_body_frame: "parse_body c st self doc = Inr st' \<Longrightarrow> frame st st'"
  unfolding parse_body_def Let_def
  by (auto split: sum.splits intro!: frame_upd_trans)

lemma frame_map_ns: "frame st st' \<Longrightarrow> map target_namespace (objs st') = map target_namespace (objs st)"
  by (rule nth_equalityI) (simp_all add: frame_def)

lemma frame_registry_ok: "frame st st' \<Longrightarrow> registry_ok st \<Longrightarrow> registry_ok st'"
  using frame_map_ns [of st st'] frame_valid_imports [of st st']
  by (simp add: registry_ok_def registered_def frame_def)

lemma frame_built: "frame st st' \<Longrightarrow> built base U st0 st \<Longrightarrow> built base U st0 st'"
  using frame_registry_ok [of st st']
  by (simp add: built_def registered_def frame_def)

lemma alloc_ok:
  assumes "registry_ok st" "tns \<notin> registered st"
  shows "registry_ok (st\<lparr>objs := objs st @ [new_Definition loc tns],
                         definitions_reg := AList.update tns (length (objs st)) (definitions_reg st)\<rparr>)"
proof -
  have "snd ` set (AList.update tns (length (objs st)) (definitions_reg st))
          \<subseteq> insert (length (objs st)) (snd ` set (definitions_reg st))"
    by (rule snd_set_update)
  then have "\<forall>i \<in> snd ` set (AList.update tns (length (objs st)) (definitions_reg st)).
               i < Suc (length (objs st))"
    using assms(1) by (fastforce simp: registry_ok_def)
  moreover have "\<forall>j < Suc (length (objs st)).
     \<forall>i \<in> snd ` set (imports ((objs st @ [new_Definition loc tns]) ! j)). i < Suc (length (objs st))"
    using assms(1) by (fastforce simp: registry_ok_def valid_imports_def nth_append less_Suc_eq)
  ultimately show ?thesis
    using assms by (simp add: registry_ok_def registered_def fst_set_update valid_imports_def)
qed

lemma link_ok:
  assumes "registry_ok st" "d < length (objs st)"
  shows "registry_ok (upd st self (\<lambda>x. x\<lparr>imports := AList.update ns d (imports x)\<rparr>))"
proof -
  let ?g = "\<lambda>x::'a Definition. x\<lparr>imports := AList.update ns d (imports x)\<rparr>"
  have m: "map target_namespace ((objs st)[self := ?g (objs st ! self)]) = map target_namespace (objs st)"
    by (rule map_update_same) simp
  have "\<forall>j < length (objs st).
     \<forall>i \<in> snd ` set (imports ((objs st)[self := ?g (objs st ! self)] ! j)). i < length (objs st)"
  proof (intro allI impI ballI)
    fix j i
    assume j: "j < length (objs st)"
      and i: "i \<in> snd ` set (imports ((objs st)[self := ?g (objs st ! self)] ! j))"
    show "i < length (objs st)"
    proof (cases "j = self")
      case True
      with i j have "i \<in> snd ` set (AList.update ns d (imports (objs st ! self)))" by simp
      with snd_set_update [of ns d "imports (objs st ! self)"]
      have "i = d \<or> i \<in> snd ` set (imports (objs st ! self))" by blast
      with assms True j show ?thesis by (auto simp: registry_ok_def valid_imports_def)
    next
      case False
      with i j assms(1) show ?thesis by (auto simp: registry_ok_def valid_imports_def)
    qed
  qed
  with assms(1) m show ?thesis
    by (simp add: registry_ok_def registered_def valid_imports_def)
qed

lemma link_built:
  assumes "built base U st0 st" "d < length (objs st)"
  shows "built base U st0 (upd st self (\<lambda>x. x\<lparr>imports := AList.update ns d (imports x)\<rparr>))"
  using assms link_ok [of st d self ns] by (simp add: built_def registered_def)

lemma built_refl: "registry_ok st \<Longrightarrow> registered st \<subseteq> U \<Longrightarrow> wsdl_location st = base \<Longrightarrow> built base U st st"
  by (simp add: built_def)

lemma built_trans: "built base U a b \<Longrightarrow> built base U b c \<Longrightarrow> built base U a c"
  by (auto simp: built_def)

lemma card_unregistered:
  assumes "finite U" "registered st \<subseteq> registered st'"
  shows "card (U - registered st') \<le> card (U - registered st)"
  using assms by (intro card_mono) auto

lemma schema_built:
  assumes "built base U st0 st"
  shows "built base U st0 (upd st self (\<lambda>x. x\<lparr>schema := v\<rparr>))"
  by (rule frame_built [OF _ assms]) (simp add: frame_upd)

text \<open>
  The parse phase returns. \<open>D\<close> is a set of documents that has the WSDL imports of each
  of its documents, with well-formed import declarations and target namespaces in the
  finite set \<open>U\<close>; each construction of a Definition registers a namespace of \<open>U\<close>
  that was not registered, so fuel of the size of \<open>U\<close> is enough.
\<close>

lemma construct_terminates:
  fixes c :: "'e collab"
  assumes fin: "finite U"
    and world: "\<forall>d \<in> D. consistent_imports c base d \<and> doc_ns d \<in> U \<and> wsdl_imports c base d \<subseteq> D"
  shows "registry_ok st \<Longrightarrow> registered st \<subseteq> U \<Longrightarrow> wsdl_location st = base \<Longrightarrow>
         doc \<in> D \<Longrightarrow> doc_ns doc \<notin> registered st \<Longrightarrow>
         card (U - registered st) \<le> k \<Longrightarrow> k \<le> f \<Longrightarrow>
         \<exists>r. Definition_init f c st doc loc = Some r \<and>
             (\<forall>st' w. r = Inr (st', w) \<longrightarrow> built base U st st' \<and> w < length (objs st'))"
proof (induction k arbitrary: st doc loc f)
  case 0
  have "doc_ns doc \<in> U - registered st" using "0.prems" world by simp
  moreover have "finite (U - registered st)" using fin by simp
  ultimately have "card (U - registered st) \<noteq> 0" by auto
  with "0.prems" show ?case by simp
next
  case (Suc k)
  define self where "self = length (objs st)"
  define tns where "tns = get_attr doc ''targetNamespace''"
  define st1 where "st1 = st\<lparr>objs := objs st @ [new_Definition loc tns],
                              definitions_reg := AList.update tns self (definitions_reg st)\<rparr>"
  have tns: "tns \<in> U" "tns \<notin> registered st"
    using Suc.prems world by (simp_all add: tns_def doc_ns_def)
  have ok1: "registry_ok st1" unfolding st1_def self_def using Suc.prems(1) tns(2) by (rule alloc_ok)
  have reg1: "registered st1 = insert tns (registered st)"
    by (simp add: st1_def registered_def fst_set_update)
  have b1: "built base U st st1"
    using ok1 reg1 tns Suc.prems by (auto simp: built_def st1_def)
  have self1: "self < length (objs st1)" by (simp add: st1_def self_def)
  have "U - registered st1 \<subset> U - registered st" using reg1 tns by auto
  then have "card (U - registered st1) < card (U - registered st)"
    using fin by (intro psubset_card_mono) simp_all
  with Suc.prems have card1: "card (U - registered st1) \<le> k" by simp
  from Suc.prems obtain f' where f: "f = Suc f'" and kf: "k \<le> f'" by (cases f) simp_all
  have loop: "\<exists>r. parse_imports f' c s self nodes = Some r \<and> (\<forall>s'. r = Inr s' \<longrightarrow> built base U s s')"
    if "registry_ok s" "registered s \<subseteq> U" "wsdl_location s = base" "self < length (objs s)"
       "card (U - registered s) \<le> k"
       "\<forall>n \<in> set nodes. import_ok c base n \<and>
          (\<forall>d. load_external c (get_attr n ''location'') base = Inr d \<and>
               localname (tag d) \<noteq> ''schema'' \<longrightarrow> d \<in> D)"
    for s :: "'e wsdl" and nodes
    using that
  proof (induction nodes arbitrary: s)
    case Nil
    then show ?case by (simp add: built_refl)
  next
    case (Cons n nodes)
    let ?loc = "get_attr n ''location''" and ?ns = "get_attr n ''namespace''"
    have rest: "\<exists>r. parse_imports f' c s' self nodes = Some r \<and> (\<forall>s''. r = Inr s'' \<longrightarrow> built base U s s'')"
      if b: "built base U s s'" for s'
    proof -
      have "card (U - registered s') \<le> card (U - registered s)"
        using fin b by (intro card_unregistered) (simp_all add: built_def)
      with Cons.prems b have "\<exists>r. parse_imports f' c s' self nodes = Some r \<and>
                  (\<forall>s''. r = Inr s'' \<longrightarrow> built base U s' s'')"
        by (intro Cons.IH) (simp_all add: built_def)
      with b show ?thesis by (blast intro: built_trans)
    qed
    have bs: "built base U s s" using Cons.prems by (simp add: built_refl)
    show ?case
    proof (cases "map_of (definitions_reg s) ?ns")
      case (Some d)
      then have "d \<in> snd ` set (definitions_reg s)" by (force dest: map_of_SomeD)
      with Cons.prems(1) have "d < length (objs s)" by (auto simp: registry_ok_def)
      with bs have "built base U s (upd s self (\<lambda>x. x\<lparr>imports := AList.update ?ns d (imports x)\<rparr>))"
        by (rule link_built)
      from rest [OF this] Some show ?thesis by (simp add: Let_def del: upd_simps)
    next
      case None
      show ?thesis
      proof (cases "load_external c ?loc base")
        case (Inl e)
        with None Cons.prems(3) show ?thesis by (simp add: Let_def load_content_def)
      next
        case (Inr document)
        let ?loc' = "absolute_location c ?loc (location (objs s ! self))"
        show ?thesis
        proof (cases "localname (tag document) = ''schema''")
          case True
          show ?thesis
          proof (cases "new_Schema c document ?loc'")
            case (Inl e)
            with None Inr True Cons.prems(3) show ?thesis
              by (simp add: Let_def load_content_def)
          next
            case sch: (Inr sc)
            from bs have "built base U s (upd s self (\<lambda>x. x\<lparr>schema := Some sc\<rparr>))"
              by (rule schema_built)
            from rest [OF this] None Inr True sch Cons.prems(3) show ?thesis
              by (simp add: Let_def load_content_def del: upd_simps)
          qed
        next
          case False
          from Cons.prems(6) Inr False have ns: "doc_ns document = ?ns" and inD: "document \<in> D"
            by (simp_all add: import_ok_def)
          from ns None have nr: "doc_ns document \<notin> registered s" by (simp add: registered_None)
          from Suc.IH [OF Cons.prems(1,2,3) inD nr Cons.prems(5) kf, of ?loc']
          obtain r where r: "Definition_init f' c s document ?loc' = Some r"
            and rb: "\<forall>s' w. r = Inr (s', w) \<longrightarrow> built base U s s' \<and> w < length (objs s')"
            by blast
          show ?thesis
          proof (cases r)
            case (Inl e)
            with r None Inr False Cons.prems(3) show ?thesis
              by (simp add: Let_def load_content_def)
          next
            case (Inr p)
            obtain s' w where p: "p = (s', w)" by (cases p)
            with rb Inr have b': "built base U s s'" and wl: "w < length (objs s')" by simp_all
            from b' wl have "built base U s (upd s' self (\<lambda>x. x\<lparr>imports := AList.update ?ns w (imports x)\<rparr>))"
              by (rule link_built)
            from rest [OF this] r Inr p None \<open>load_external c ?loc base = Inr document\<close> False
              Cons.prems(3)
            show ?thesis by (simp add: Let_def load_content_def del: upd_simps)
          qed
        qed
      qed
    qed
  qed
  have nodes_ok: "\<forall>n \<in> set (findall doc (wsdl_tag ''import'')). import_ok c base n \<and>
          (\<forall>d. load_external c (get_attr n ''location'') base = Inr d \<and>
               localname (tag d) \<noteq> ''schema'' \<longrightarrow> d \<in> D)"
    using Suc.prems(4) world by (fastforce simp: consistent_imports_def wsdl_imports_def)
  have "registered st1 \<subseteq> U" "wsdl_location st1 = base" using b1 by (simp_all add: built_def)
  from loop [OF ok1 this self1 card1 nodes_ok]
  obtain r where r: "parse_imports f' c st1 self (findall doc (wsdl_tag ''import'')) = Some r"
    and rb: "\<forall>s'. r = Inr s' \<longrightarrow> built base U st1 s'" by blast
  have unfold: "Definition_init f c st doc loc =
      (case parse_imports f' c st1 self (findall doc (wsdl_tag ''import'')) of
         None \<Rightarrow> None
       | Some (Inl e) \<Rightarrow> Some (Inl e)
       | Some (Inr st2) \<Rightarrow>
           Some (case parse_body c st2 self doc of Inl e \<Rightarrow> Inl e | Inr st3 \<Rightarrow> Inr (st3, self)))"
    unfolding f st1_def self_def tns_def by (simp add: Let_def)
  show ?case
  proof (cases r)
    case (Inl e)
    with r unfold show ?thesis by simp
  next
    case (Inr st2)
    with rb have b2: "built base U st1 st2" by simp
    with b1 have b02: "built base U st st2" by (rule built_trans)
    have self2: "self < length (objs st2)" using self1 b2 by (simp add: built_def)
    show ?thesis
    proof (cases "parse_body c st2 self doc")
      case (Inl e)
      with r Inr unfold show ?thesis by simp
    next
      case body: (Inr st3)
      then have fr: "frame st2 st3" by (rule parse_body_frame)
      then have "built base U st st3" using b02 by (rule frame_built)
      moreover have "self < length (objs st3)" using fr self2 by (simp add: frame_def)
      ultimately show ?thesis using r Inr body unfold by simp
    qed
  qed
qed

text \<open>
  The parse phase reaches every import. When a construction returns a Definition, the
  namespace of its document is registered and all WSDL imports of that document are
  registered too, as are the imports of every Definition constructed on the way.
\<close>

lemma parse_imports_closed:
  fixes c :: "'e collab"
  assumes init: "\<And>st doc loc st' w pending.
       Definition_init f c st doc loc = Some (Inr (st', w)) \<Longrightarrow> wsdl_location st = base \<Longrightarrow>
       doc \<in> D \<Longrightarrow> closed c base D (registered st) pending \<Longrightarrow>
       insert (doc_ns doc) (registered st) \<subseteq> registered st' \<and> wsdl_location st' = base \<and>
       closed c base D (registered st') pending"
  shows "parse_imports f c s self nodes = Some (Inr s') \<Longrightarrow> wsdl_location s = base \<Longrightarrow>
         \<forall>n \<in> set nodes. import_ok c base n \<and>
            (\<forall>d. load_external c (get_attr n ''location'') base = Inr d \<and>
                 localname (tag d) \<noteq> ''schema'' \<longrightarrow> d \<in> D) \<Longrightarrow>
         closed c base D (registered s) pending \<Longrightarrow>
         registered s \<subseteq> registered s' \<and> wsdl_location s' = base \<and>
         closed c base D (registered s') pending \<and>
         (\<forall>n \<in> set nodes. \<forall>d. load_external c (get_attr n ''location'') base = Inr d \<and>
                 localname (tag d) \<noteq> ''schema'' \<longrightarrow> doc_ns d \<in> registered s')"
proof (induction nodes arbitrary: s)
  case Nil
  then show ?case by simp
next
  case (Cons n nodes)
  let ?loc = "get_attr n ''location''" and ?ns = "get_attr n ''namespace''"
  let ?post = "\<lambda>s0. registered s0 \<subseteq> registered s' \<and> wsdl_location s' = base \<and>
         closed c base D (registered s') pending \<and>
         (\<forall>n \<in> set nodes. \<forall>d. load_external c (get_attr n ''location'') base = Inr d \<and>
                 localname (tag d) \<noteq> ''schema'' \<longrightarrow> doc_ns d \<in> registered s')"
  have nodes: "\<forall>n \<in> set nodes. import_ok c base n \<and>
            (\<forall>d. load_external c (get_attr n ''location'') base = Inr d \<and>
                 localname (tag d) \<noteq> ''schema'' \<longrightarrow> d \<in> D)"
    using Cons.prems(3) by simp
  have n_ok: "\<And>d. load_external c ?loc base = Inr d \<Longrightarrow> localname (tag d) \<noteq> ''schema'' \<Longrightarrow>
                doc_ns d = ?ns \<and> d \<in> D"
    using Cons.prems(3) by (simp add: import_ok_def)
  have finish: ?case
    if post: "?post s1" and sub: "registered s \<subseteq> registered s1"
      and here: "\<And>d. load_external c ?loc base = Inr d \<Longrightarrow> localname (tag d) \<noteq> ''schema'' \<Longrightarrow>
                   doc_ns d \<in> registered s1"
    for s1 :: "'e wsdl"
    using post sub here by auto
  show ?case
  proof (cases "map_of (definitions_reg s) ?ns")
    case (Some d0)
    let ?s1 = "upd s self (\<lambda>x. x\<lparr>imports := AList.update ?ns d0 (imports x)\<rparr>)"
    have reg: "registered ?s1 = registered s" by (simp add: registered_def)
    from Cons.prems(1) Some have run: "parse_imports f c ?s1 self nodes = Some (Inr s')"
      by (simp add: Let_def del: upd_simps)
    have "?post ?s1"
      using Cons.IH [OF run _ nodes] Cons.prems(2,4) by (simp add: reg)
    moreover have "?ns \<in> registered s" using Some by (force simp: registered_def dest: map_of_SomeD)
    ultimately show ?thesis using n_ok by (intro finish [of ?s1]) (auto simp: reg)
  next
    case None
    show ?thesis
    proof (cases "load_external c ?loc base")
      case (Inl e)
      with None Cons.prems(1,2) show ?thesis by (simp add: Let_def load_content_def)
    next
      case (Inr document)
      let ?loc' = "absolute_location c ?loc (location (objs s ! self))"
      show ?thesis
      proof (cases "localname (tag document) = ''schema''")
        case True
        show ?thesis
        proof (cases "new_Schema c document ?loc'")
          case (Inl e)
          with None Inr True Cons.prems(1,2) show ?thesis
            by (simp add: Let_def load_content_def)
        next
          case sch: (Inr sc)
          let ?s1 = "upd s self (\<lambda>x. x\<lparr>schema := Some sc\<rparr>)"
          have reg: "registered ?s1 = registered s" by (simp add: registered_def)
          from Cons.prems(1,2) None Inr True sch
          have run: "parse_imports f c ?s1 self nodes = Some (Inr s')"
            by (simp add: Let_def load_content_def del: upd_simps)
          have "?post ?s1"
            using Cons.IH [OF run _ nodes] Cons.prems(2,4) by (simp add: reg)
          then show ?thesis using Inr True by (intro finish [of ?s1]) (auto simp: reg)
        qed
      next
        case False
        from n_ok [OF Inr False] have inD: "document \<in> D" by simp
        from Cons.prems(1,2) None Inr False obtain s1 w where
          made: "Definition_init f c s document ?loc' = Some (Inr (s1, w))"
          and run: "parse_imports f c
                      (upd s1 self (\<lambda>x. x\<lparr>imports := AList.update ?ns w (imports x)\<rparr>)) self nodes =
                    Some (Inr s')"
          by (auto simp: Let_def load_content_def split: option.splits sum.splits simp del: upd_simps)
        let ?s2 = "upd s1 self (\<lambda>x. x\<lparr>imports := AList.update ?ns w (imports x)\<rparr>)"
        from init [OF made Cons.prems(2) inD Cons.prems(4)]
        have i: "insert (doc_ns document) (registered s) \<subseteq> registered s1"
          "wsdl_location s1 = base" "closed c base D (registered s1) pending"
          by simp_all
        have reg: "registered ?s2 = registered s1" by (simp add: registered_def)
        have "?post ?s2"
          using Cons.IH [OF run _ nodes] i by (simp add: reg)
        then show ?thesis using i(1) Inr by (intro finish [of ?s2]) (auto simp: reg)
      qed
    qed
  qed
qed

lemma construct_closed:
  fixes c :: "'e collab"
  assumes world: "\<forall>d \<in> D. consistent_imports c base d \<and> wsdl_imports c base d \<subseteq> D"
    and inj: "\<forall>d1 \<in> D. \<forall>d2 \<in> D. doc_ns d1 = doc_ns d2 \<longrightarrow> d1 = d2"
  shows "Definition_init f c st doc loc = Some (Inr (st', w)) \<Longrightarrow> wsdl_location st = base \<Longrightarrow>
         doc \<in> D \<Longrightarrow> closed c base D (registered st) pending \<Longrightarrow>
         insert (doc_ns doc) (registered st) \<subseteq> registered st' \<and> wsdl_location st' = base \<and>
         closed c base D (registered st') pending"
proof (induction f arbitrary: st doc loc st' w pending)
  case 0
  then show ?case by simp
next
  case (Suc f)
  define self where "self = length (objs st)"
  define x where "x = doc_ns doc"
  define st1 where "st1 = st\<lparr>objs := objs st @ [new_Definition loc (get_attr doc ''targetNamespace'')],
                              definitions_reg := AList.update (get_attr doc ''targetNamespace'') self
                                                   (definitions_reg st)\<rparr>"
  have reg1: "registered st1 = insert x (registered st)"
    by (simp add: st1_def registered_def fst_set_update x_def doc_ns_def)
  have loc1: "wsdl_location st1 = base" using Suc.prems(2) by (simp add: st1_def)
  from Suc.prems(1) obtain st2 where
    run: "parse_imports f c st1 self (findall doc (wsdl_tag ''import'')) = Some (Inr st2)"
    and body: "parse_body c st2 self doc = Inr st'"
    unfolding st1_def self_def
    by (auto simp: Let_def split: option.splits sum.splits)
  have nodes_ok: "\<forall>n \<in> set (findall doc (wsdl_tag ''import'')). import_ok c base n \<and>
          (\<forall>d. load_external c (get_attr n ''location'') base = Inr d \<and>
               localname (tag d) \<noteq> ''schema'' \<longrightarrow> d \<in> D)"
    using Suc.prems(3) world by (fastforce simp: consistent_imports_def wsdl_imports_def)
  have cl1: "closed c base D (registered st1) (insert x pending)"
    using Suc.prems(4) by (auto simp: closed_def reg1)
  from parse_imports_closed [of f c base D st1 self "findall doc (wsdl_tag ''import'')" st2
         "insert x pending", OF Suc.IH run loc1 nodes_ok cl1]
  have sub: "registered st1 \<subseteq> registered st2" and loc2: "wsdl_location st2 = base"
    and cl2: "closed c base D (registered st2) (insert x pending)"
    and succ: "\<forall>n \<in> set (findall doc (wsdl_tag ''import'')).
                 \<forall>d. load_external c (get_attr n ''location'') base = Inr d \<and>
                     localname (tag d) \<noteq> ''schema'' \<longrightarrow> doc_ns d \<in> registered st2"
    by simp_all
  from body have fr: "frame st2 st'" by (rule parse_body_frame)
  then have reg': "registered st' = registered st2" and loc': "wsdl_location st' = base"
    using loc2 by (simp_all add: frame_def registered_def)
  have own: "\<forall>d' \<in> wsdl_imports c base doc. doc_ns d' \<in> registered st2"
    using succ by (auto simp: wsdl_imports_def)
  have "closed c base D (registered st2) pending"
    unfolding closed_def
  proof (intro ballI impI)
    fix d d'
    assume d: "d \<in> D" "doc_ns d \<in> registered st2 \<and> doc_ns d \<notin> pending"
      and d': "d' \<in> wsdl_imports c base d"
    show "doc_ns d' \<in> registered st2"
    proof (cases "doc_ns d = x")
      case True
      with inj d(1) Suc.prems(3) have "d = doc" by (simp add: x_def)
      with own d' show ?thesis by simp
    next
      case False
      with cl2 d d' show ?thesis by (auto simp: closed_def)
    qed
  qed
  with sub reg1 reg' loc' show ?case by (auto simp: x_def)
qed

lemma closed_reachable:
  assumes "closed c base (reachable c base root) R {}" "doc_ns root \<in> R"
  shows "d \<in> reachable c base root \<Longrightarrow> doc_ns d \<in> R"
proof (induction rule: reachable.induct)
  case root
  show ?case by (rule assms(2))
next
  case (step d d')
  with assms(1) show ?case by (auto simp: closed_def)
qed

lemmas ex_eval =
  ex_collab_def ex_wsdl_def ex_import_def wsdl_tag_def wsdl_ns_def findall_def find_child_def
  get_attr_def load_content_def localname_def new_Definition_def upd_def Let_def
  parse_body_def parse_types_def find_schema_nodes_def parse_messages_def parse_ports_def
  parse_binding_def parse_service_def resolve_entities_def new_Schema_def import_tag_def

text \<open>
  C6 fails on the code. The root of \<open>ex_schema_import_files\<close> imports a document whose
  root element is a schema, under a namespace that is not registered. \<^verbatim>\<open>parse_imports\<close>
  assigns that schema to the Definition and adds nothing to its imports, but the next
  statement of the constructor, \<^verbatim>\<open>self.schema = self.parse_types(doc)\<close>, overwrites it:
  the document has no \<^verbatim>\<open>wsdl:types\<close>, and the constructed Definition has no schema.
\<close>

theorem Definition_init_drops_schema_import:
  "localname (tag ex_xsd) = ''schema'' \<and>
   schema_after_imports
     (parse_imports 0 (ex_collab ex_schema_import_files [])
        \<lparr>wsdl_location = Some ''r.wsdl'', definitions_reg = [(Some ''urn:r'', 0)],
         objs = [new_Definition (Some ''r.wsdl'') (Some ''urn:r'')]\<rparr> 0
        [ex_import ''types.xsd'' ''urn:t'']) 0 =
     Some (Some (Schema (Some ex_xsd) (Some ''types.xsd''))) \<and>
   returned_schema
     (Definition_init (Suc 0) (ex_collab ex_schema_import_files [])
        \<lparr>wsdl_location = Some ''r.wsdl'', definitions_reg = [], objs = []\<rparr>
        (ex_wsdl ''urn:r'' [ex_import ''types.xsd'' ''urn:t'']) (Some ''r.wsdl'')) =
     Some (None, [])"
  by (simp add: ex_eval ex_schema_import_files_def ex_xsd_def schema_tag_def
        returned_schema_def schema_after_imports_def)

text \<open>
  C2, as stated, fails: the registry is keyed by the target namespace of the loaded
  document, the test before loading is on the \<^verbatim>\<open>namespace\<close> attribute of the import
  declaration. The root of \<open>ex_mismatch_files\<close> imports the document \<^verbatim>\<open>b.wsdl\<close> twice,
  under two namespaces that are not its target namespace \<^verbatim>\<open>urn:b\<close>; the construction
  returns with two Definition objects of the target namespace \<^verbatim>\<open>urn:b\<close>.
\<close>

theorem construction_parses_once_counterexample:
  "parsed_namespaces
     (Document_init (Suc (Suc 0)) (ex_collab ex_mismatch_files []) (Str (Some ''r.wsdl''))) =
   Some [Some ''urn:r'', Some ''urn:b'', Some ''urn:b'']"
  by (simp add: Document_init_def ex_eval ex_mismatch_files_def parsed_namespaces_def)

text \<open>
  The original also fails when two documents of the graph have the same target
  namespace: in \<open>ex_shared_files\<close> every import declaration names the target namespace
  of the document it loads, \<^verbatim>\<open>c.wsdl\<close> is reachable from the root (through \<^verbatim>\<open>b.wsdl\<close>
  and \<^verbatim>\<open>x2.wsdl\<close>), and the construction returns without a Definition for its
  namespace \<^verbatim>\<open>urn:c\<close>, because \<^verbatim>\<open>urn:x\<close> was registered by \<^verbatim>\<open>x1.wsdl\<close>.
\<close>

lemma construction_skips_shared_namespace:
  "parsed_namespaces
     (Document_init (Suc (Suc (Suc 0))) (ex_collab ex_shared_files []) (Str (Some ''r.wsdl''))) =
     Some [Some ''urn:r'', Some ''urn:x'', Some ''urn:b''] \<and>
   ex_wsdl ''urn:c'' [] \<in>
     reachable (ex_collab ex_shared_files [] :: (string \<times> string) collab) (Some ''r.wsdl'')
       (ex_wsdl ''urn:r'' [ex_import ''x1.wsdl'' ''urn:x'', ex_import ''b.wsdl'' ''urn:b''])"
proof
  show "parsed_namespaces
     (Document_init (Suc (Suc (Suc 0))) (ex_collab ex_shared_files []) (Str (Some ''r.wsdl''))) =
     Some [Some ''urn:r'', Some ''urn:x'', Some ''urn:b'']"
    by (simp add: Document_init_def ex_eval ex_shared_files_def parsed_namespaces_def)
next
  let ?c = "ex_collab ex_shared_files [] :: (string \<times> string) collab"
  let ?r = "ex_wsdl ''urn:r'' [ex_import ''x1.wsdl'' ''urn:x'', ex_import ''b.wsdl'' ''urn:b'']"
  let ?b = "ex_wsdl ''urn:b'' [ex_import ''x2.wsdl'' ''urn:x'']"
  let ?x2 = "ex_wsdl ''urn:x'' [ex_import ''c.wsdl'' ''urn:c'']"
  have 1: "?b \<in> wsdl_imports ?c (Some ''r.wsdl'') ?r"
    by (simp add: wsdl_imports_def ex_eval ex_shared_files_def)
  have 2: "?x2 \<in> wsdl_imports ?c (Some ''r.wsdl'') ?b"
    by (simp add: wsdl_imports_def ex_eval ex_shared_files_def)
  have 3: "ex_wsdl ''urn:c'' [] \<in> wsdl_imports ?c (Some ''r.wsdl'') ?x2"
    by (simp add: wsdl_imports_def ex_eval ex_shared_files_def)
  from reachable.root [of ?r ?c "Some ''r.wsdl''"] 1 have "?b \<in> reachable ?c (Some ''r.wsdl'') ?r"
    by (rule reachable.step)
  from this 2 have "?x2 \<in> reachable ?c (Some ''r.wsdl'') ?r" by (rule reachable.step)
  from this 3 show "ex_wsdl ''urn:c'' [] \<in> reachable ?c (Some ''r.wsdl'') ?r" by (rule reachable.step)
qed

text \<open>
  C2, amended. The constructor registers the new Definition under its target namespace
  in the state \<^verbatim>\<open>parse_imports\<close> starts from. An import declaration whose namespace is
  registered is linked to the registered Definition with no load and no new object; one
  whose namespace is not registered and whose location loads a WSDL document has that
  document constructed as a Definition and linked. Consequently, for an import graph
  (the documents reachable from the root through imports of WSDL documents) with
  finitely many target namespaces, in which the import declarations are well formed
  (the namespace attribute of each is the target namespace of the WSDL document its
  location loads) and no two documents have the same target namespace, the construction
  of the Document returns (with fuel above the number of namespaces, cycles or not), and
  when it returns a Document, its Definition objects have exactly the target namespaces
  of the documents of the graph, no two of them the same: each namespace of the graph was
  parsed once, and once only.
\<close>

theorem construction_parses_once:
  fixes c :: "'e collab"
  shows
  "(\<exists>st1. map_of (definitions_reg st1) (get_attr doc ''targetNamespace'') = Some (length (objs st)) \<and>
          Definition_init (Suc f) c st doc loc =
            (case parse_imports f c st1 (length (objs st)) (findall doc (wsdl_tag ''import'')) of
               None \<Rightarrow> None
             | Some (Inl e) \<Rightarrow> Some (Inl e)
             | Some (Inr st2) \<Rightarrow>
                 Some (case parse_body c st2 (length (objs st)) doc of
                         Inl e \<Rightarrow> Inl e
                       | Inr st3 \<Rightarrow> Inr (st3, length (objs st))))) \<and>
   (\<forall>d. map_of (definitions_reg st) (get_attr n ''namespace'') = Some d \<longrightarrow>
        parse_imports f c st self (n # rest) =
          parse_imports f c
            (upd st self (\<lambda>x. x\<lparr>imports := AList.update (get_attr n ''namespace'') d (imports x)\<rparr>))
            self rest) \<and>
   (\<forall>document.
        map_of (definitions_reg st) (get_attr n ''namespace'') = None \<and>
        load_external c (get_attr n ''location'') (wsdl_location st) = Inr document \<and>
        localname (tag document) \<noteq> ''schema'' \<longrightarrow>
        parse_imports f c st self (n # rest) =
          (case Definition_init f c st document
                  (absolute_location c (get_attr n ''location'') (location (objs st ! self))) of
             None \<Rightarrow> None
           | Some (Inl e) \<Rightarrow> Some (Inl e)
           | Some (Inr (st', w)) \<Rightarrow>
               parse_imports f c
                 (upd st' self
                    (\<lambda>x. x\<lparr>imports := AList.update (get_attr n ''namespace'') w (imports x)\<rparr>))
                 self rest)) \<and>
   (load_content c (case src of FileObj content \<Rightarrow> None | Str l \<Rightarrow> l) src = Inr root \<and>
    (\<forall>d \<in> reachable c (case src of FileObj content \<Rightarrow> None | Str l \<Rightarrow> l) root.
        consistent_imports c (case src of FileObj content \<Rightarrow> None | Str l \<Rightarrow> l) d \<and>
        doc_ns d \<in> set nss \<and>
        (\<forall>d' \<in> reachable c (case src of FileObj content \<Rightarrow> None | Str l \<Rightarrow> l) root.
            doc_ns d = doc_ns d' \<longrightarrow> d = d')) \<and>
    length nss < g \<longrightarrow>
    (\<exists>r. Document_init g c src = Some r \<and>
         (\<forall>st' w. r = Inr (st', w) \<longrightarrow>
            distinct (map target_namespace (objs st')) \<and>
            set (map target_namespace (objs st')) =
              doc_ns ` reachable c (case src of FileObj content \<Rightarrow> None | Str l \<Rightarrow> l) root)))"
proof (intro conjI allI impI)
  let ?st1 = "st\<lparr>objs := objs st @ [new_Definition loc (get_attr doc ''targetNamespace'')],
                  definitions_reg := AList.update (get_attr doc ''targetNamespace'')
                                       (length (objs st)) (definitions_reg st)\<rparr>"
  have "map_of (definitions_reg ?st1) (get_attr doc ''targetNamespace'') = Some (length (objs st))"
    by (simp add: AList.update_conv')
  moreover have "Definition_init (Suc f) c st doc loc =
            (case parse_imports f c ?st1 (length (objs st)) (findall doc (wsdl_tag ''import'')) of
               None \<Rightarrow> None
             | Some (Inl e) \<Rightarrow> Some (Inl e)
             | Some (Inr st2) \<Rightarrow>
                 Some (case parse_body c st2 (length (objs st)) doc of
                         Inl e \<Rightarrow> Inl e
                       | Inr st3 \<Rightarrow> Inr (st3, length (objs st))))"
    by (simp add: Let_def)
  ultimately show "\<exists>st1. map_of (definitions_reg st1) (get_attr doc ''targetNamespace'') = Some (length (objs st)) \<and>
          Definition_init (Suc f) c st doc loc =
            (case parse_imports f c st1 (length (objs st)) (findall doc (wsdl_tag ''import'')) of
               None \<Rightarrow> None
             | Some (Inl e) \<Rightarrow> Some (Inl e)
             | Some (Inr st2) \<Rightarrow>
                 Some (case parse_body c st2 (length (objs st)) doc of
                         Inl e \<Rightarrow> Inl e
                       | Inr st3 \<Rightarrow> Inr (st3, length (objs st))))"
    by blast
next
  fix d assume "map_of (definitions_reg st) (get_attr n ''namespace'') = Some d"
  then show "parse_imports f c st self (n # rest) =
          parse_imports f c
            (upd st self (\<lambda>x. x\<lparr>imports := AList.update (get_attr n ''namespace'') d (imports x)\<rparr>))
            self rest"
    by (simp add: Let_def del: upd_simps)
next
  fix document
  assume "map_of (definitions_reg st) (get_attr n ''namespace'') = None \<and>
        load_external c (get_attr n ''location'') (wsdl_location st) = Inr document \<and>
        localname (tag document) \<noteq> ''schema''"
  then show "parse_imports f c st self (n # rest) =
          (case Definition_init f c st document
                  (absolute_location c (get_attr n ''location'') (location (objs st ! self))) of
             None \<Rightarrow> None
           | Some (Inl e) \<Rightarrow> Some (Inl e)
           | Some (Inr (st', w)) \<Rightarrow>
               parse_imports f c
                 (upd st' self
                    (\<lambda>x. x\<lparr>imports := AList.update (get_attr n ''namespace'') w (imports x)\<rparr>))
                 self rest)"
    by (simp add: Let_def load_content_def del: upd_simps)
next
  define base where "base = (case src of FileObj content \<Rightarrow> None | Str l \<Rightarrow> l)"
  define D where "D = reachable c base root"
  define U where "U = doc_ns ` D"
  assume "load_content c (case src of FileObj content \<Rightarrow> None | Str l \<Rightarrow> l) src = Inr root \<and>
    (\<forall>d \<in> reachable c (case src of FileObj content \<Rightarrow> None | Str l \<Rightarrow> l) root.
        consistent_imports c (case src of FileObj content \<Rightarrow> None | Str l \<Rightarrow> l) d \<and>
        doc_ns d \<in> set nss \<and>
        (\<forall>d' \<in> reachable c (case src of FileObj content \<Rightarrow> None | Str l \<Rightarrow> l) root.
            doc_ns d = doc_ns d' \<longrightarrow> d = d')) \<and>
    length nss < g"
  then have root: "load_content c base src = Inr root"
    and good: "\<forall>d \<in> D. consistent_imports c base d \<and> doc_ns d \<in> set nss \<and>
                 (\<forall>d' \<in> D. doc_ns d = doc_ns d' \<longrightarrow> d = d')"
    and g: "length nss < g"
    unfolding base_def D_def by blast+
  have rootD: "root \<in> D" unfolding D_def by (rule reachable.root)
  have stepD: "\<forall>d \<in> D. wsdl_imports c base d \<subseteq> D"
    unfolding D_def by (auto intro: reachable.step)
  have Usub: "U \<subseteq> set nss" using good by (auto simp: U_def)
  then have finU: "finite U" by (rule finite_subset) simp
  have cardU: "card U \<le> length nss"
    using card_mono [OF _ Usub] card_length [of nss] by simp
  have world: "\<forall>d \<in> D. consistent_imports c base d \<and> doc_ns d \<in> U \<and> wsdl_imports c base d \<subseteq> D"
    using good stepD by (simp add: U_def)
  define st0 :: "'e wsdl" where "st0 = \<lparr>wsdl_location = base, definitions_reg = [], objs = []\<rparr>"
  have ok0: "registry_ok st0" and reg0: "registered st0 = {}" and loc0: "wsdl_location st0 = base"
    by (simp_all add: st0_def registry_ok_def registered_def valid_imports_def)
  have "\<exists>r. Definition_init g c st0 root base = Some r \<and>
             (\<forall>st' w. r = Inr (st', w) \<longrightarrow> built base U st0 st' \<and> w < length (objs st'))"
  proof (rule construct_terminates [where k = "card U", OF finU world ok0 _ loc0 rootD])
    show "registered st0 \<subseteq> U" by (simp add: reg0)
    show "doc_ns root \<notin> registered st0" by (simp add: reg0)
    show "card (U - registered st0) \<le> card U" by (simp add: reg0)
    show "card U \<le> g" using cardU g by simp
  qed
  then obtain r1 where r1: "Definition_init g c st0 root base = Some r1"
    and b1: "\<forall>st' w. r1 = Inr (st', w) \<longrightarrow> built base U st0 st' \<and> w < length (objs st')"
    by blast
  have unfold: "Document_init g c src =
      (case Definition_init g c st0 root base of
         None \<Rightarrow> None
       | Some (Inl e) \<Rightarrow> Some (Inl e)
       | Some (Inr (st1, root_definitions)) \<Rightarrow>
          (case resolve_imports g c st1 root_definitions of
             None \<Rightarrow> None
           | Some (st2, Some e) \<Rightarrow> Some (Inl e)
           | Some (st2, None) \<Rightarrow> Some (Inr (st2, root_definitions))))"
    using root unfolding Document_init_def st0_def base_def by (simp add: Let_def)
  have "\<exists>r. Document_init g c src = Some r \<and>
         (\<forall>st' w. r = Inr (st', w) \<longrightarrow>
            distinct (map target_namespace (objs st')) \<and>
            set (map target_namespace (objs st')) = U)"
  proof (cases r1)
    case (Inl e)
    with r1 unfold show ?thesis by simp
  next
    case (Inr p)
    obtain st1 w where p: "p = (st1, w)" by (cases p)
    with b1 Inr have b: "built base U st0 st1" and w: "w < length (objs st1)" by simp_all
    from b have ok1: "registry_ok st1" and sub: "registered st1 \<subseteq> U" by (simp_all add: built_def)
    from ok1 have v1: "valid_imports st1" and d1: "distinct (map target_namespace (objs st1))"
      and s1: "set (map target_namespace (objs st1)) = registered st1"
      by (simp_all add: registry_ok_def)
    have made: "Definition_init g c st0 root base = Some (Inr (st1, w))" using r1 Inr p by simp
    have "closed c base D (registered st0) {}" by (simp add: closed_def reg0)
    from construct_closed [of D c base g st0 root base st1 w "{}", OF _ _ made loc0 rootD this]
      good stepD
    have "insert (doc_ns root) (registered st0) \<subseteq> registered st1"
      and cl: "closed c base D (registered st1) {}"
      by simp_all
    then have "doc_ns root \<in> registered st1" by simp
    with cl have "\<forall>d \<in> D. doc_ns d \<in> registered st1"
      unfolding D_def by (auto intro: closed_reachable)
    with sub have all: "registered st1 = U" by (auto simp: U_def)
    have "length (objs st1) = card (registered st1)"
      using distinct_card [OF d1] s1 by simp
    with all cardU have len: "length (objs st1) \<le> length nss" by simp
    have "unresolved st1 \<subseteq> {..<length (objs st1)}" by (auto simp: unresolved_def)
    then have "card (unresolved st1) \<le> length (objs st1)"
      using card_mono [of "{..<length (objs st1)}" "unresolved st1"] by simp
    with len g have "card (unresolved st1) < g" by simp
    from resolve_terminates [OF v1 this, of w c "[]"] w
    obtain st2 e where r2: "resolve_imports g c st1 w = Some (st2, e)" by blast
    then have "frame st1 st2" using resolve_frame [of g c st1 w st2 e] by simp
    then have "map target_namespace (objs st2) = map target_namespace (objs st1)"
      by (rule frame_map_ns)
    with d1 s1 all have "distinct (map target_namespace (objs st2)) \<and>
                         set (map target_namespace (objs st2)) = U" by simp
    with r1 Inr p r2 unfold show ?thesis by (cases e) simp_all
  qed
  then show "\<exists>r. Document_init g c src = Some r \<and>
         (\<forall>st' w. r = Inr (st', w) \<longrightarrow>
            distinct (map target_namespace (objs st')) \<and>
            set (map target_namespace (objs st')) =
              doc_ns ` reachable c (case src of FileObj content \<Rightarrow> None | Str l \<Rightarrow> l) root)"
    unfolding U_def D_def base_def .
qed

lemma ex_collab_loads:
  "load_external (ex_collab files frs) l base = Inr d \<Longrightarrow> (l, d) \<in> set files"
  by (auto simp: ex_collab_def split: option.splits dest: map_of_SomeD)

lemma ex_reachable:
  "d \<in> reachable (ex_collab files frs) base root \<Longrightarrow> d = root \<or> d \<in> snd ` set files"
proof (induction rule: reachable.induct)
  case root
  show ?case by simp
next
  case (step d d')
  then obtain l where "load_external (ex_collab files frs) l base = Inr d'"
    by (auto simp: wsdl_imports_def)
  then have "(l, d') \<in> set files" by (rule ex_collab_loads)
  then show ?case by force
qed

theorem construction_parses_once_witness:
  "parsed_namespaces
     (Document_init (Suc (Suc (Suc (Suc 0)))) (ex_collab ex_cyclic_files []) (Str (Some ''a.wsdl''))) =
     Some [Some ''urn:a'', Some ''urn:b'', Some ''urn:c''] \<and>
   (\<exists>r. Document_init (Suc (Suc (Suc (Suc 0)))) (ex_collab ex_cyclic_files []) (Str (Some ''a.wsdl'')) = Some r \<and>
        (\<forall>st' w. r = Inr (st', w) \<longrightarrow>
           distinct (map target_namespace (objs st')) \<and>
           set (map target_namespace (objs st')) =
             doc_ns ` reachable (ex_collab ex_cyclic_files []) (Some ''a.wsdl'')
                        (ex_wsdl ''urn:a'' [ex_import ''b.wsdl'' ''urn:b''])))"
proof
  show "parsed_namespaces
     (Document_init (Suc (Suc (Suc (Suc 0)))) (ex_collab ex_cyclic_files []) (Str (Some ''a.wsdl''))) =
     Some [Some ''urn:a'', Some ''urn:b'', Some ''urn:c'']"
    by (simp add: Document_init_def ex_eval ex_cyclic_files_def parsed_namespaces_def)
next
  let ?c = "ex_collab ex_cyclic_files [] :: (string \<times> string) collab"
  let ?nss = "[Some ''urn:a'', Some ''urn:b'', Some ''urn:c'']"
  let ?a = "ex_wsdl ''urn:a'' [ex_import ''b.wsdl'' ''urn:b'']"
  have files: "d \<in> snd ` set ex_cyclic_files" if "d \<in> reachable ?c (Some ''a.wsdl'') ?a" for d
    using ex_reachable [OF that] by (auto simp: ex_cyclic_files_def)
  have cons: "consistent_imports ?c (Some ''a.wsdl'') d \<and> doc_ns d \<in> set ?nss"
    if "d \<in> snd ` set ex_cyclic_files" for d
    using that
    by (auto simp: ex_cyclic_files_def consistent_imports_def import_ok_def doc_ns_def ex_eval)
  have inj: "d = d'"
    if "d \<in> snd ` set ex_cyclic_files" "d' \<in> snd ` set ex_cyclic_files" "doc_ns d = doc_ns d'"
    for d d'
    using that by (auto simp: ex_cyclic_files_def doc_ns_def ex_eval)
  have h: "load_content ?c (case Str (Some ''a.wsdl'') of FileObj content \<Rightarrow> None | Str l \<Rightarrow> l)
             (Str (Some ''a.wsdl'')) = Inr ?a \<and>
    (\<forall>d \<in> reachable ?c (case Str (Some ''a.wsdl'') of FileObj content \<Rightarrow> None | Str l \<Rightarrow> l) ?a.
        consistent_imports ?c (case Str (Some ''a.wsdl'') of FileObj content \<Rightarrow> None | Str l \<Rightarrow> l) d \<and>
        doc_ns d \<in> set ?nss \<and>
        (\<forall>d' \<in> reachable ?c (case Str (Some ''a.wsdl'') of FileObj content \<Rightarrow> None | Str l \<Rightarrow> l) ?a.
            doc_ns d = doc_ns d' \<longrightarrow> d = d')) \<and>
    length ?nss < Suc (Suc (Suc (Suc 0)))"
  proof (intro conjI ballI impI)
    show "load_content ?c (case Str (Some ''a.wsdl'') of FileObj content \<Rightarrow> None | Str l \<Rightarrow> l)
             (Str (Some ''a.wsdl'')) = Inr ?a"
      by (simp add: load_content_def ex_collab_def ex_cyclic_files_def)
    show "length ?nss < Suc (Suc (Suc (Suc 0)))" by simp
  next
    fix d
    assume "d \<in> reachable ?c (case Str (Some ''a.wsdl'') of FileObj content \<Rightarrow> None | Str l \<Rightarrow> l) ?a"
    then have d: "d \<in> snd ` set ex_cyclic_files" by (simp add: files)
    from cons [OF d]
    show "consistent_imports ?c (case Str (Some ''a.wsdl'') of FileObj content \<Rightarrow> None | Str l \<Rightarrow> l) d"
      and "doc_ns d \<in> set ?nss" by simp_all
    fix d'
    assume "d' \<in> reachable ?c (case Str (Some ''a.wsdl'') of FileObj content \<Rightarrow> None | Str l \<Rightarrow> l) ?a"
      and eq: "doc_ns d = doc_ns d'"
    then have d': "d' \<in> snd ` set ex_cyclic_files" by (simp add: files)
    from d d' eq show "d = d'" by (rule inj)
  qed
  from construction_parses_once [of _ _ _ ?c _ _ _ _ "Str (Some ''a.wsdl'')" ?a ?nss "Suc (Suc (Suc (Suc 0)))"] h
  show "\<exists>r. Document_init (Suc (Suc (Suc (Suc 0)))) ?c (Str (Some ''a.wsdl'')) = Some r \<and>
        (\<forall>st' w. r = Inr (st', w) \<longrightarrow>
           distinct (map target_namespace (objs st')) \<and>
           set (map target_namespace (objs st')) =
             doc_ns ` reachable ?c (Some ''a.wsdl'') ?a)"
    by simp
qed

end
